theory Spec2Isabelle
  imports Main "HOL-Library.Word"
begin

unbundle bit_operations_syntax

section \<open>C library helpers used by the proxy\<close>

type_synonym byte = "8 word"

text \<open>Character classes of the C locale, as \<^verbatim>\<open>ctype.h\<close> gives them.\<close>

definition ord :: "char \<Rightarrow> nat" where
  "ord c = of_char c"

definition isdigit_c :: "char \<Rightarrow> bool" where
  "isdigit_c c = (48 \<le> ord c \<and> ord c \<le> 57)"

definition isspace_c :: "char \<Rightarrow> bool" where
  "isspace_c c = (ord c = 32 \<or> (9 \<le> ord c \<and> ord c \<le> 13))"

definition iscntrl_c :: "char \<Rightarrow> bool" where
  "iscntrl_c c = (ord c < 32 \<or> ord c = 127)"

definition digit_val :: "char \<Rightarrow> int" where
  "digit_val c = int (ord c) - 48"

definition dec_val :: "string \<Rightarrow> int" where
  "dec_val ds = foldl (\<lambda>a c. 10 * a + digit_val c) 0 ds"

text \<open>
  \<^verbatim>\<open>strtoul (s, &p, 10)\<close> on an LP64 platform: white space is skipped, an optional sign
  is read, then the longest run of decimal digits.  The result is the value (negated
  modulo \<open>2^64\<close> after a minus sign), the text that \<^verbatim>\<open>p\<close> points at, and whether
  \<^verbatim>\<open>errno\<close> was set (to \<^verbatim>\<open>ERANGE\<close>, when the digits exceed \<^verbatim>\<open>ULONG_MAX\<close>).
  With no digits at all the value is 0, \<^verbatim>\<open>p\<close> is the start of the input and
  \<^verbatim>\<open>errno\<close> is left alone, as glibc does.
\<close>

definition ULONG_MAX :: int where
  "ULONG_MAX = 18446744073709551615"

definition strtoul :: "string \<Rightarrow> int \<times> string \<times> bool" where
  "strtoul s =
     (let s1 = dropWhile isspace_c s;
          neg = (s1 \<noteq> [] \<and> hd s1 = CHR ''-'');
          s2 = (if s1 \<noteq> [] \<and> (hd s1 = CHR ''-'' \<or> hd s1 = CHR ''+'') then tl s1 else s1);
          ds = takeWhile isdigit_c s2;
          rest = dropWhile isdigit_c s2
      in if ds = [] then (0, s, False)
         else if dec_val ds > ULONG_MAX then (ULONG_MAX, rest, True)
         else if neg then ((ULONG_MAX + 1 - dec_val ds) mod (ULONG_MAX + 1), rest, False)
         else (dec_val ds, rest, False))"

section \<open>Access control lists (config.c)\<close>

text \<open>Address families, with the values Linux gives them.\<close>

definition AF_UNSPEC :: int where "AF_UNSPEC = 0"
definition AF_INET :: int where "AF_INET = 2"
definition AF_INET6 :: int where "AF_INET6 = 10"

definition MAX_INADDR_BYTES :: nat where
  "MAX_INADDR_BYTES = 16"

text \<open>
  \<^verbatim>\<open>struct sockaddr\<close>: the family and the bytes of the address field that belongs to it
  (\<^verbatim>\<open>sin_addr.s_addr\<close> or \<^verbatim>\<open>sin6_addr\<close>).
\<close>

record sockaddr =
  sa_family :: int
  sa_addr :: "byte list"

text \<open>\<^verbatim>\<open>typedef struct cidr\<close>; the list link is the position in the ACL's list.\<close>

record cidr =
  family :: int
  len :: int
  addr :: "byte list"
  mask :: "byte list"

record acl =
  name :: "string option"
  head :: "cidr list"

text \<open>
  \<^verbatim>\<open>cidr_match\<close>: 0 on match, 1 otherwise.  The loop runs \<open>i\<close> from 0 to \<open>len - 1\<close>;
  when the lengths differ the loop is skipped and the function returns 0.
\<close>

function cidr_match_loop :: "cidr \<Rightarrow> byte list \<Rightarrow> nat \<Rightarrow> nat \<Rightarrow> int" where
  "cidr_match_loop c ap n i =
     (if i < n
      then (if addr c ! i \<noteq> (ap ! i AND mask c ! i) then 1
            else cidr_match_loop c ap n (Suc i))
      else 0)"
  by pat_completeness auto
termination
  by (relation "measure (\<lambda>(c, ap, n, i). n - i)") auto

declare cidr_match_loop.simps [simp del]

definition cidr_match :: "cidr \<Rightarrow> byte list \<Rightarrow> int \<Rightarrow> int" where
  "cidr_match c ap n = (if len c = n then cidr_match_loop c ap (nat n) 0 else 0)"

text \<open>
  \<^verbatim>\<open>sockaddr_bytes\<close>: the address bytes and their number, or -1 for any family other
  than \<^verbatim>\<open>AF_INET\<close> and \<^verbatim>\<open>AF_INET6\<close> (the pointer is then not set).
\<close>

definition sockaddr_bytes :: "sockaddr \<Rightarrow> byte list \<times> int" where
  "sockaddr_bytes sa =
     (if sa_family sa = AF_INET then (sa_addr sa, 4)
      else if sa_family sa = AF_INET6 then (sa_addr sa, 16)
      else ([], -1))"

text \<open>
  \<^verbatim>\<open>acl_match\<close>: 0 if the address matches, 1 if it does not, -1 on error (invalid
  address family).
\<close>

fun acl_match_loop :: "cidr list \<Rightarrow> sockaddr \<Rightarrow> byte list \<Rightarrow> int \<Rightarrow> int" where
  "acl_match_loop [] sa ap n = 1"
| "acl_match_loop (c # cs) sa ap n =
     (if family c = sa_family sa \<and> cidr_match c ap n = 0 then 0
      else acl_match_loop cs sa ap n)"

definition acl_match :: "acl \<Rightarrow> sockaddr \<Rightarrow> int" where
  "acl_match a sa =
     (case sockaddr_bytes sa of
        (ap, n) \<Rightarrow> if n = -1 then -1 else acl_match_loop (head a) sa ap n)"

text \<open>
  \<^verbatim>\<open>masklen_to_netmask\<close> stores bytes through the pointer \<^verbatim>\<open>buf\<close>, which
  \<^verbatim>\<open>parse_cidr\<close> points at the 16-byte array \<^verbatim>\<open>mask\<close> of a \<^verbatim>\<open>struct cidr\<close>.  Nothing in
  the function compares an index with the size of that array.  A store at an index
  inside the array updates it.  A store at an index past its end leaves the array as it
  is and is recorded, in program order, with its index and value: in the C program it
  lands in the memory that follows \<^verbatim>\<open>mask\<close>, first the member \<^verbatim>\<open>next\<close> of the entry and
  then memory that is not part of the entry.
\<close>

type_synonym overrun = "(nat \<times> byte) list"

definition store_byte :: "byte list \<times> overrun \<Rightarrow> nat \<Rightarrow> byte \<Rightarrow> byte list \<times> overrun" where
  "store_byte m j v =
     (if j < length (fst m) then ((fst m)[j := v], snd m) else (fst m, snd m @ [(j, v)]))"

text \<open>
  The count \<^verbatim>\<open>cnt = masklen / 8\<close> is an \<^verbatim>\<open>int\<close> assigned from a \<^verbatim>\<open>size_t\<close>: the quotient
  is cut to 32 bits and read as signed.  The first loop stores \<open>0xff\<close> at the indices
  below \<open>cnt\<close>; the function returns when that loop ended at index 16, and otherwise
  stores the partial byte at the next index and zeros up to index 15.
\<close>

definition size_to_int :: "int \<Rightarrow> int" where
  "size_to_int n = sint (word_of_int n :: 32 word)"

definition masklen_to_netmask :: "byte list \<Rightarrow> nat \<Rightarrow> int \<Rightarrow> byte list \<times> overrun" where
  "masklen_to_netmask buf n masklen =
     (let cnt = size_to_int (masklen div 8);
          i = nat cnt;
          m1 = fold (\<lambda>j m. store_byte m j 0xff) [0..<i] (buf, [])
      in if i = MAX_INADDR_BYTES then m1
         else let cnt2 = nat (8 - masklen mod 8);
                  m2 = store_byte m1 i (push_bit cnt2 (drop_bit cnt2 (0xff :: byte)))
              in fold (\<lambda>j m. store_byte m j 0) [Suc i..<MAX_INADDR_BYTES] m2)"

text \<open>
  A result of \<^verbatim>\<open>getaddrinfo\<close> with \<^verbatim>\<open>AI_NUMERICHOST\<close>: the first entry of the list,
  or the error code.  The resolver is the C library's; \<^verbatim>\<open>parse_cidr\<close> takes it as a
  parameter.
\<close>

record addrinfo =
  ai_family :: int
  ai_addr :: sockaddr

datatype cfg_status = CFGPARSER_OK | CFGPARSER_FAIL

text \<open>
  \<^verbatim>\<open>parse_cidr\<close>.  The token is what \<^verbatim>\<open>gettkn_expect (T_STRING)\<close> returned
  (\<open>None\<close> for \<^verbatim>\<open>NULL\<close>).  The text is cut at the first \<^verbatim>\<open>/\<close>; the mask length is
  read by \<^verbatim>\<open>strtoul\<close> and used as it is; the new entry is zero-filled, receives the
  \<open>len\<close> address bytes and the mask, and is then normalised byte by byte and added to the
  list by \<^verbatim>\<open>SLIST_PUSH\<close> (taken here to append; no statement below depends on the
  position).  The result is the status, the list, and the stores that
  \<^verbatim>\<open>masklen_to_netmask\<close> made past the end of \<^verbatim>\<open>mask\<close>.
\<close>

definition split_slash :: "string \<Rightarrow> string \<times> string option" where
  "split_slash s =
     (if CHR ''/'' \<in> set s
      then (takeWhile (\<lambda>c. c \<noteq> CHR ''/'') s, Some (tl (dropWhile (\<lambda>c. c \<noteq> CHR ''/'') s)))
      else (s, None))"

definition memcpy :: "byte list \<Rightarrow> byte list \<Rightarrow> nat \<Rightarrow> byte list" where
  "memcpy dst src n = fold (\<lambda>j b. b[j := src ! j]) [0..<n] dst"

definition fixup_addr :: "byte list \<Rightarrow> byte list \<Rightarrow> nat \<Rightarrow> byte list" where
  "fixup_addr a m n = fold (\<lambda>j b. b[j := b ! j AND m ! j]) [0..<n] a"

definition parse_cidr ::
  "(string \<Rightarrow> int + addrinfo) \<Rightarrow> acl \<Rightarrow> string option \<Rightarrow> cfg_status \<times> acl \<times> overrun" where
  "parse_cidr getaddrinfo a tok =
     (case tok of
        None \<Rightarrow> (CFGPARSER_FAIL, a, [])
      | Some str \<Rightarrow>
          (case split_slash str of (host, mask_str) \<Rightarrow>
             let parsed = (case mask_str of None \<Rightarrow> (0, [], False) | Some m \<Rightarrow> strtoul m)
             in case parsed of (masklen0, p, errno) \<Rightarrow>
                if mask_str \<noteq> None \<and> (errno \<or> p \<noteq> []) then (CFGPARSER_FAIL, a, [])
                else (case getaddrinfo host of
                        Inl rc \<Rightarrow> (CFGPARSER_FAIL, a, [])
                      | Inr res \<Rightarrow>
                          (case sockaddr_bytes (ai_addr res) of (p, n) \<Rightarrow>
                             if n = -1 then (CFGPARSER_FAIL, a, [])
                             else
                               let zero = replicate MAX_INADDR_BYTES (0 :: byte);
                                   addr1 = memcpy zero p (nat n);
                                   masklen = (if mask_str = None then n * 8 else masklen0)
                               in (case masklen_to_netmask zero (nat n) masklen of
                                     (mask1, past) \<Rightarrow>
                                       (CFGPARSER_OK,
                                        a\<lparr>head := head a @ [\<lparr>family = ai_family res, len = n,
                                                    addr = fixup_addr addr1 mask1 (nat n),
                                                    mask = mask1\<rparr>]\<rparr>,
                                        past))))))"

text \<open>
  An entry is well formed when its length is the address length of its family, which is
  how \<^verbatim>\<open>parse_cidr\<close> builds it.
\<close>

definition cidr_wf :: "cidr \<Rightarrow> bool" where
  "cidr_wf c = ((family c = AF_INET \<longrightarrow> len c = 4) \<and> (family c = AF_INET6 \<longrightarrow> len c = 16))"

section \<open>Properties of the access control lists\<close>

lemma cidr_match_loop_iff:
  "cidr_match_loop c ap n i = 0 \<longleftrightarrow>
     (\<forall>j. i \<le> j \<and> j < n \<longrightarrow> addr c ! j = (ap ! j AND mask c ! j))"
proof (induction c ap n i rule: cidr_match_loop.induct)
  case (1 c ap n i)
  show ?case
  proof (cases "i < n")
    case False
    then show ?thesis by (subst cidr_match_loop.simps) auto
  next
    case True
    show ?thesis
    proof (cases "addr c ! i \<noteq> (ap ! i AND mask c ! i)")
      case True
      with \<open>i < n\<close> show ?thesis
        by (subst cidr_match_loop.simps) auto
    next
      case False
      with \<open>i < n\<close> "1.IH" have "cidr_match_loop c ap n i = 0 \<longleftrightarrow>
         (\<forall>j. Suc i \<le> j \<and> j < n \<longrightarrow> addr c ! j = (ap ! j AND mask c ! j))"
        by (subst cidr_match_loop.simps) simp
      also have "\<dots> \<longleftrightarrow> (\<forall>j. i \<le> j \<and> j < n \<longrightarrow> addr c ! j = (ap ! j AND mask c ! j))"
        using False by (metis Suc_leI le_neq_implies_less Suc_leD)
      finally show ?thesis .
    qed
  qed
qed

lemma cidr_match_loop_range:
  "cidr_match_loop c ap n i = 0 \<or> cidr_match_loop c ap n i = 1"
  by (induction c ap n i rule: cidr_match_loop.induct)
     (subst (1 2) cidr_match_loop.simps, auto)

lemma cidr_match_same_len:
  "cidr_match c ap (len c) = 0 \<longleftrightarrow> (\<forall>j < nat (len c). addr c ! j = (ap ! j AND mask c ! j))"
  by (simp add: cidr_match_def cidr_match_loop_iff)

lemma acl_match_loop_range:
  "acl_match_loop cs sa ap n = 0 \<or> acl_match_loop cs sa ap n = 1"
  by (induction cs) auto

lemma acl_match_loop_iff:
  "acl_match_loop cs sa ap n = 0 \<longleftrightarrow>
     (\<exists>c \<in> set cs. family c = sa_family sa \<and> cidr_match c ap n = 0)"
  by (induction cs) auto

lemma fold_upd_length:
  "length (fold (\<lambda>j b. b[j := f j b]) xs a) = length a"
  by (induction xs arbitrary: a) auto

lemma fold_upd_nth:
  "n \<le> length a \<Longrightarrow> i < length a \<Longrightarrow>
   fold (\<lambda>j b. b[j := f j (b ! j)]) [0..<n] a ! i = (if i < n then f i (a ! i) else a ! i)"
proof (induction n)
  case 0
  then show ?case by simp
next
  case (Suc n)
  let ?b = "fold (\<lambda>j b. b[j := f j (b ! j)]) [0..<n] a"
  have len: "length ?b = length a"
    by (rule fold_upd_length [where f = "\<lambda>j b. f j (b ! j)"])
  have "fold (\<lambda>j b. b[j := f j (b ! j)]) [0..<Suc n] a = ?b[n := f n (?b ! n)]"
    by simp
  with Suc len show ?case
    by (auto simp: nth_list_update)
qed

lemma memcpy_length: "length (memcpy dst src n) = length dst"
  unfolding memcpy_def by (rule fold_upd_length [where f = "\<lambda>j b. src ! j"])

lemma memcpy_nth:
  "n \<le> length dst \<Longrightarrow> i < length dst \<Longrightarrow>
   memcpy dst src n ! i = (if i < n then src ! i else dst ! i)"
  unfolding memcpy_def by (rule fold_upd_nth [where f = "\<lambda>j x. src ! j"])

lemma fixup_addr_nth:
  "n \<le> length a \<Longrightarrow> i < length a \<Longrightarrow>
   fixup_addr a m n ! i = (if i < n then a ! i AND m ! i else a ! i)"
  unfolding fixup_addr_def by (rule fold_upd_nth [where f = "\<lambda>j x. x AND m ! j"])

lemma sockaddr_bytes_len:
  "sockaddr_bytes sa = (p, n) \<Longrightarrow> n \<noteq> -1 \<Longrightarrow> (n = 4 \<or> n = 16) \<and> p = sa_addr sa"
  by (auto simp: sockaddr_bytes_def split: if_splits)

lemma parse_cidr_OK_D:
  assumes "parse_cidr getaddrinfo a (Some str) = (CFGPARSER_OK, a', w)"
  shows "\<exists>res n m. getaddrinfo (fst (split_slash str)) = Inr res \<and> (n = 4 \<or> n = 16) \<and>
           a' = a\<lparr>head := head a @
                  [\<lparr>family = ai_family res, len = int n,
                    addr = fixup_addr (memcpy (replicate 16 0) (sa_addr (ai_addr res)) n) m n,
                    mask = m\<rparr>]\<rparr>"
proof -
  obtain host mask_str where sp: "split_slash str = (host, mask_str)"
    by (cases "split_slash str")
  from assms sp obtain res where g: "getaddrinfo host = Inr res"
    by (cases "getaddrinfo host")
       (auto simp: parse_cidr_def Let_def split: prod.splits option.splits if_splits)
  obtain p k where sb: "sockaddr_bytes (ai_addr res) = (p, k)"
    by (cases "sockaddr_bytes (ai_addr res)")
  from assms sp g sb have k: "k \<noteq> -1"
    by (auto simp: parse_cidr_def Let_def split: prod.splits option.splits if_splits)
  with sb have kp: "(k = 4 \<or> k = 16) \<and> p = sa_addr (ai_addr res)"
    by (rule sockaddr_bytes_len)
  from assms sp g sb k obtain m where
    "a' = a\<lparr>head := head a @
            [\<lparr>family = ai_family res, len = k,
              addr = fixup_addr (memcpy (replicate MAX_INADDR_BYTES 0) p (nat k)) m (nat k),
              mask = m\<rparr>]\<rparr>"
    by (auto simp: parse_cidr_def Let_def split: prod.splits option.splits if_splits)
  with kp g sp show ?thesis
    by (intro exI [of _ res] exI [of _ "nat k"] exI [of _ m])
       (auto simp: MAX_INADDR_BYTES_def)
qed

text \<open>
  The stores of \<^verbatim>\<open>masklen_to_netmask\<close>.  A run of stores at indices inside the array
  records nothing; a run of stores at indices past its end leaves the array as it is and
  records each of them.
\<close>

lemma fold_store_inside:
  "\<forall>j \<in> set js. j < length (fst m) \<Longrightarrow>
   fold (\<lambda>j m. store_byte m j v) js m = (fold (\<lambda>j b. b[j := v]) js (fst m), snd m)"
  by (induction js arbitrary: m) (simp_all add: store_byte_def)

lemma fold_store_outside:
  "\<forall>j \<in> set js. length (fst m) \<le> j \<Longrightarrow>
   fold (\<lambda>j m. store_byte m j v) js m = (fst m, snd m @ map (\<lambda>j. (j, v)) js)"
  by (induction js arbitrary: m) (simp_all add: store_byte_def)

lemma fold_const_length:
  "length (fold (\<lambda>j b. b[j := v]) xs a) = length a"
  by (induction xs arbitrary: a) auto

lemma fold_const_full:
  "fold (\<lambda>j b. b[j := v]) [0..<length a] a = replicate (length a) v"
proof -
  have "fold (\<lambda>j b. b[j := (\<lambda>j x. v) j (b ! j)]) [0..<length a] a ! i = v" if "i < length a" for i
    using that by (subst fold_upd_nth) simp_all
  then show ?thesis
    by (intro nth_equalityI) (simp_all add: fold_const_length)
qed

text \<open>
  When the count \<open>cnt\<close> is at most 16, every store of \<^verbatim>\<open>masklen_to_netmask\<close> is inside
  the 16-byte array.  When it is larger, the first loop stores \<open>0xff\<close> at the indices 16
  to \<open>cnt - 1\<close> past the end of the array, and the partial byte follows at index \<open>cnt\<close>.
\<close>

lemma masklen_to_netmask_inside:
  assumes "length buf = MAX_INADDR_BYTES" and "size_to_int (masklen div 8) \<le> 16"
  shows "snd (masklen_to_netmask buf n masklen) = []"
proof -
  let ?i = "nat (size_to_int (masklen div 8))"
  let ?b1 = "fold (\<lambda>j b. b[j := 0xff]) [0..<?i] buf"
  from assms(2) have i: "?i \<le> 16" by simp
  have m1: "fold (\<lambda>j m. store_byte m j 0xff) [0..<?i] (buf, []) = (?b1, [])"
    using i assms(1) by (subst fold_store_inside) (auto simp: MAX_INADDR_BYTES_def)
  have l1: "length ?b1 = 16"
    using assms(1) by (simp add: fold_const_length MAX_INADDR_BYTES_def)
  show ?thesis
  proof (cases "?i = 16")
    case True
    with m1 show ?thesis
      by (simp add: masklen_to_netmask_def Let_def MAX_INADDR_BYTES_def)
  next
    case False
    with i have lt: "?i < 16" by simp
    let ?m2 = "store_byte (?b1, []) ?i (push_bit (nat (8 - masklen mod 8))
                 (drop_bit (nat (8 - masklen mod 8)) (0xff :: byte)))"
    have m2: "snd ?m2 = []" "length (fst ?m2) = 16"
      using lt l1 by (simp_all add: store_byte_def)
    have "snd (fold (\<lambda>j m. store_byte m j 0) [Suc ?i..<16] ?m2) = []"
      using m2 by (subst fold_store_inside) auto
    then show ?thesis
      using m1 False
      by (simp add: masklen_to_netmask_def Let_def MAX_INADDR_BYTES_def)
  qed
qed

lemma masklen_to_netmask_past:
  assumes "length buf = MAX_INADDR_BYTES" and "16 < size_to_int (masklen div 8)"
  shows "masklen_to_netmask buf n masklen =
           (replicate 16 0xff,
            map (\<lambda>j. (j, 0xff)) [16..<nat (size_to_int (masklen div 8))] @
            [(nat (size_to_int (masklen div 8)),
              push_bit (nat (8 - masklen mod 8)) (drop_bit (nat (8 - masklen mod 8)) 0xff))])"
proof -
  let ?i = "nat (size_to_int (masklen div 8))"
  from assms(2) have i: "16 < ?i" by simp
  then have sp: "[0..<?i] = [0..<16] @ [16..<?i]"
    using upt_add_eq_append [of 0 16 "?i - 16"] by simp
  have l: "length buf = 16"
    using assms(1) by (simp add: MAX_INADDR_BYTES_def)
  have in16: "fold (\<lambda>j m. store_byte m j 0xff) [0..<16] (buf, []) =
                (fold (\<lambda>j b. b[j := 0xff]) [0..<16] buf, [])"
    using l by (subst fold_store_inside) auto
  have full: "fold (\<lambda>j b. b[j := 0xff]) [0..<16] buf = replicate 16 0xff"
    using fold_const_full [of "0xff" buf] l by simp
  have out: "fold (\<lambda>j m. store_byte m j 0xff) [16..<?i] (replicate 16 0xff, []) =
               (replicate 16 0xff, map (\<lambda>j. (j, 0xff)) [16..<?i])"
    by (subst fold_store_outside) auto
  have m1: "fold (\<lambda>j m. store_byte m j 0xff) [0..<?i] (buf, []) =
              (replicate 16 0xff, map (\<lambda>j. (j, 0xff)) [16..<?i])"
    by (simp only: sp fold_append comp_def in16 full out)
  have st: "store_byte (replicate 16 0xff, map (\<lambda>j. (j, 0xff)) [16..<?i]) ?i v =
              (replicate 16 0xff, map (\<lambda>j. (j, 0xff)) [16..<?i] @ [(?i, v)])" for v
    using i by (simp add: store_byte_def)
  from i have emp: "[Suc ?i..<16] = []" and ne: "?i \<noteq> 16"
    by simp_all
  show ?thesis
    by (simp only: masklen_to_netmask_def Let_def MAX_INADDR_BYTES_def m1 st emp ne
        if_False fold_simps)
qed

lemma size_to_int_small:
  fixes k :: int
  assumes "0 \<le> k" and "k < 136"
  shows "size_to_int (k div 8) \<le> 16"
proof -
  from assms have r: "0 \<le> k div 8" "k div 8 \<le> 16" by simp_all
  then have "sint (word_of_int (k div 8) :: 32 word) = k div 8"
    by (simp add: sint_sbintrunc' signed_take_bit_int_eq_self)
  with r show ?thesis
    by (simp add: size_to_int_def)
qed

text \<open>
  C5 (as amended).  For an ACL whose entries are well formed and a peer of family
  \<^verbatim>\<open>AF_INET\<close> or \<^verbatim>\<open>AF_INET6\<close>, \<^verbatim>\<open>acl_match\<close> returns 0 (match) or 1 (no match), and it
  returns 0 exactly when some entry has the peer's family and
  \<open>(peer_bytes[i] & mask[i]) == address[i]\<close> for every address byte \<open>i\<close>.  For a peer of
  any other family it returns -1, the value its header comment reserves for the error
  "invalid address family", not the non-match value 1.
\<close>

theorem acl_match_iff:
  assumes "\<forall>c \<in> set (head a). cidr_wf c"
  shows "(sa_family sa = AF_INET \<or> sa_family sa = AF_INET6 \<longrightarrow>
            (acl_match a sa = 0 \<or> acl_match a sa = 1) \<and>
            (acl_match a sa = 0 \<longleftrightarrow>
               (\<exists>c \<in> set (head a). family c = sa_family sa \<and>
                  (\<forall>i < nat (len c). (sa_addr sa ! i AND mask c ! i) = addr c ! i)))) \<and>
         (sa_family sa \<noteq> AF_INET \<and> sa_family sa \<noteq> AF_INET6 \<longrightarrow> acl_match a sa = -1)"
proof (intro conjI impI)
  assume fam: "sa_family sa = AF_INET \<or> sa_family sa = AF_INET6"
  define n :: int where "n = (if sa_family sa = AF_INET then 4 else 16)"
  from fam have sb: "sockaddr_bytes sa = (sa_addr sa, n)"
    by (auto simp: sockaddr_bytes_def n_def)
  have am: "acl_match a sa = acl_match_loop (head a) sa (sa_addr sa) n"
    by (simp add: acl_match_def sb n_def)
  show "acl_match a sa = 0 \<or> acl_match a sa = 1"
    unfolding am by (rule acl_match_loop_range)
  have same: "len c = n" if "c \<in> set (head a)" "family c = sa_family sa" for c
    using that assms fam by (auto simp: cidr_wf_def n_def AF_INET_def AF_INET6_def)
  have "acl_match a sa = 0 \<longleftrightarrow>
          (\<exists>c \<in> set (head a). family c = sa_family sa \<and> cidr_match c (sa_addr sa) n = 0)"
    unfolding am by (rule acl_match_loop_iff)
  also have "\<dots> \<longleftrightarrow> (\<exists>c \<in> set (head a). family c = sa_family sa \<and>
                  cidr_match c (sa_addr sa) (len c) = 0)"
    using same by auto
  also have "\<dots> \<longleftrightarrow> (\<exists>c \<in> set (head a). family c = sa_family sa \<and>
                  (\<forall>i < nat (len c). (sa_addr sa ! i AND mask c ! i) = addr c ! i))"
    unfolding cidr_match_same_len by (auto simp: eq_commute)
  finally show "acl_match a sa = 0 \<longleftrightarrow>
          (\<exists>c \<in> set (head a). family c = sa_family sa \<and>
             (\<forall>i < nat (len c). (sa_addr sa ! i AND mask c ! i) = addr c ! i))" .
next
  assume "sa_family sa \<noteq> AF_INET \<and> sa_family sa \<noteq> AF_INET6"
  then show "acl_match a sa = -1"
    by (simp add: acl_match_def sockaddr_bytes_def)
qed

text \<open>
  Whatever the mask length, the entry that \<^verbatim>\<open>parse_cidr\<close> adds to the list satisfies
  \<open>addr[i] == (addr[i] & mask[i])\<close> for each of the 16 bytes of the two arrays, and
  \<^verbatim>\<open>cidr_match\<close> on it gives the same verdict as comparing the peer with the configured
  address under the mask, whatever host bits the configured address had.
\<close>

lemma parse_cidr_entry_normalized:
  assumes "parse_cidr getaddrinfo a (Some str) = (CFGPARSER_OK, a', w)"
  shows "\<exists>c res. getaddrinfo (fst (split_slash str)) = Inr res \<and> head a' = head a @ [c] \<and>
           (\<forall>i < MAX_INADDR_BYTES. addr c ! i = (addr c ! i AND mask c ! i)) \<and>
           (\<forall>ap. cidr_match c ap (len c) = 0 \<longleftrightarrow>
                 (\<forall>i < nat (len c). (ap ! i AND mask c ! i) =
                                    (sa_addr (ai_addr res) ! i AND mask c ! i)))"
proof -
  from parse_cidr_OK_D [OF assms] obtain res n m where
    g: "getaddrinfo (fst (split_slash str)) = Inr res" and n: "n = 4 \<or> n = 16" and
    a': "a' = a\<lparr>head := head a @
                  [\<lparr>family = ai_family res, len = int n,
                    addr = fixup_addr (memcpy (replicate 16 0) (sa_addr (ai_addr res)) n) m n,
                    mask = m\<rparr>]\<rparr>"
    by blast
  let ?p = "sa_addr (ai_addr res)"
  let ?a1 = "memcpy (replicate 16 0) ?p n"
  let ?c = "\<lparr>family = ai_family res, len = int n, addr = fixup_addr ?a1 m n, mask = m\<rparr>"
  have l1: "length ?a1 = 16" by (simp add: memcpy_length)
  have n16: "n \<le> 16" using n by auto
  have nth: "fixup_addr ?a1 m n ! i = (if i < n then ?p ! i AND m ! i else 0)" if "i < 16" for i
    using that n16 l1 by (simp add: fixup_addr_nth memcpy_nth)
  have norm: "\<forall>i < MAX_INADDR_BYTES. addr ?c ! i = (addr ?c ! i AND mask ?c ! i)"
    by (simp add: MAX_INADDR_BYTES_def nth word_bw_assocs)
  have "cidr_match ?c ap (len ?c) = 0 \<longleftrightarrow>
          (\<forall>i < nat (len ?c). (ap ! i AND mask ?c ! i) = (?p ! i AND mask ?c ! i))" for ap
    unfolding cidr_match_same_len using n16 by (auto simp: nth eq_commute)
  with norm g a' show ?thesis
    by (intro exI [of _ ?c] exI [of _ res]) simp
qed

text \<open>
  The amended C5 at a concrete input: the entry 10.0.0.0/8 and the peer 10.9.8.7.
\<close>

theorem acl_match_iff_witness:
  "list_all cidr_wf (head \<lparr>name = None, head = [\<lparr>family = 2, len = 4,
        addr = [10, 0, 0, 0, 0, 0, 0, 0, 0, 0, 0, 0, 0, 0, 0, 0],
        mask = [255, 0, 0, 0, 0, 0, 0, 0, 0, 0, 0, 0, 0, 0, 0, 0]\<rparr>]\<rparr>) \<and>
   sa_family \<lparr>sa_family = 2, sa_addr = [10, 9, 8, 7]\<rparr> = AF_INET \<and>
   acl_match \<lparr>name = None, head = [\<lparr>family = 2, len = 4,
        addr = [10, 0, 0, 0, 0, 0, 0, 0, 0, 0, 0, 0, 0, 0, 0, 0],
        mask = [255, 0, 0, 0, 0, 0, 0, 0, 0, 0, 0, 0, 0, 0, 0, 0]\<rparr>]\<rparr>
     \<lparr>sa_family = 2, sa_addr = [10, 9, 8, 7]\<rparr> = 0 \<and>
   (\<exists>c \<in> set (head \<lparr>name = None, head = [\<lparr>family = 2, len = 4,
        addr = [10, 0, 0, 0, 0, 0, 0, 0, 0, 0, 0, 0, 0, 0, 0, 0],
        mask = [255, 0, 0, 0, 0, 0, 0, 0, 0, 0, 0, 0, 0, 0, 0, 0]\<rparr>]\<rparr>).
      family c = sa_family \<lparr>sa_family = 2, sa_addr = [10, 9, 8, 7]\<rparr> \<and>
      (\<forall>i < nat (len c). (sa_addr \<lparr>sa_family = 2, sa_addr = [10, 9, 8, 7]\<rparr> ! i AND mask c ! i)
                            = addr c ! i))"
proof -
  let ?A = "\<lparr>name = None, head = [\<lparr>family = 2, len = 4,
        addr = [10, 0, 0, 0, 0, 0, 0, 0, 0, 0, 0, 0, 0, 0, 0, 0],
        mask = [255, 0, 0, 0, 0, 0, 0, 0, 0, 0, 0, 0, 0, 0, 0, 0 :: byte]\<rparr>]\<rparr>"
  let ?S = "\<lparr>sa_family = 2, sa_addr = [10, 9, 8, 7 :: byte]\<rparr>"
  have wf: "\<forall>c \<in> set (head ?A). cidr_wf c"
    by (simp add: cidr_wf_def AF_INET_def AF_INET6_def)
  then have wf': "list_all cidr_wf (head ?A)"
    by (simp only: list_all_iff)
  have fam: "sa_family ?S = AF_INET"
    by (simp add: AF_INET_def)
  have m: "acl_match ?A ?S = 0"
    by code_simp
  from acl_match_iff [OF wf, of ?S] fam m
  have "\<exists>c \<in> set (head ?A). family c = sa_family ?S \<and>
          (\<forall>i < nat (len c). (sa_addr ?S ! i AND mask c ! i) = addr c ! i)"
    by blast
  with wf' fam m show ?thesis
    by blast
qed

text \<open>
  C5 as stated fails: for a peer of family 1 (\<^verbatim>\<open>AF_UNIX\<close>) the result is the error value
  -1 and not the non-match value 1.
\<close>

theorem acl_match_unknown_family_counterexample:
  "acl_match \<lparr>name = None, head = []\<rparr> \<lparr>sa_family = 1, sa_addr = []\<rparr> = -1 \<and>
   acl_match \<lparr>name = None, head = []\<rparr> \<lparr>sa_family = 1, sa_addr = []\<rparr> \<noteq> 1"
  by (simp add: acl_match_def sockaddr_bytes_def AF_INET_def AF_INET6_def)

text \<open>
  A token without a mask length, or with one below 136, makes no store past the end of
  \<^verbatim>\<open>mask\<close>.
\<close>

lemma parse_cidr_inside:
  assumes "split_slash str = (host, mask_str)"
    and "mask_str = None \<or> (\<exists>ms k. mask_str = Some ms \<and> strtoul ms = (k, [], False) \<and>
                                            0 \<le> k \<and> k < 136)"
  shows "snd (snd (parse_cidr getaddrinfo a (Some str))) = []"
proof (cases "getaddrinfo host")
  case (Inl rc)
  with assms(1) show ?thesis
    by (simp add: parse_cidr_def Let_def split: prod.split option.split)
next
  case (Inr res)
  obtain p n where sb: "sockaddr_bytes (ai_addr res) = (p, n)"
    by (cases "sockaddr_bytes (ai_addr res)")
  show ?thesis
  proof (cases "n = -1")
    case True
    with assms(1) Inr sb show ?thesis
      by (simp add: parse_cidr_def Let_def split: prod.split option.split)
  next
    case False
    with sb have n: "n = 4 \<or> n = 16"
      using sockaddr_bytes_len by blast
    have len: "length (replicate MAX_INADDR_BYTES (0 :: byte)) = MAX_INADDR_BYTES"
      by simp
    from assms(2) show ?thesis
    proof
      assume none: "mask_str = None"
      from n have "size_to_int (n * 8 div 8) \<le> 16"
        by (auto simp: size_to_int_def)
      from masklen_to_netmask_inside [OF len this, of "nat n"]
      show ?thesis
        using assms(1) Inr sb False none
        by (auto simp: parse_cidr_def Let_def split: prod.split)
    next
      assume "\<exists>ms k. mask_str = Some ms \<and> strtoul ms = (k, [], False) \<and> 0 \<le> k \<and> k < 136"
      then obtain ms k where ms: "mask_str = Some ms" "strtoul ms = (k, [], False)"
        and k: "0 \<le> k" "k < 136"
        by blast
      from size_to_int_small [OF k] have "size_to_int (k div 8) \<le> 16" .
      from masklen_to_netmask_inside [OF len this, of "nat n"]
      show ?thesis
        using assms(1) Inr sb False ms
        by (auto simp: parse_cidr_def Let_def split: prod.split)
    qed
  qed
qed

text \<open>
  A token whose mask length gives a count above 16 (136 is the least such length) is
  accepted all the same, and the stores past the end of \<^verbatim>\<open>mask\<close> are those of
  \<^verbatim>\<open>masklen_to_netmask\<close>.
\<close>

lemma parse_cidr_past:
  assumes "split_slash str = (host, Some ms)" and "strtoul ms = (k, [], False)"
    and "16 < size_to_int (k div 8)"
    and "getaddrinfo host = Inr res" and "sockaddr_bytes (ai_addr res) = (p, n)" and "n \<noteq> -1"
  shows "fst (parse_cidr getaddrinfo a (Some str)) = CFGPARSER_OK \<and>
         snd (snd (parse_cidr getaddrinfo a (Some str))) =
           map (\<lambda>j. (j, 0xff)) [16..<nat (size_to_int (k div 8))] @
           [(nat (size_to_int (k div 8)),
             push_bit (nat (8 - k mod 8)) (drop_bit (nat (8 - k mod 8)) 0xff))]"
proof -
  have len: "length (replicate MAX_INADDR_BYTES (0 :: byte)) = MAX_INADDR_BYTES"
    by simp
  from masklen_to_netmask_past [OF len assms(3), of "nat n"] assms(1,2,4,5,6)
  show ?thesis
    by (simp add: parse_cidr_def Let_def)
qed

text \<open>
  The configured text \<^verbatim>\<open>10.1.2.3/8\<close> is stored as 10.0.0.0 with mask 255.0.0.0, and
  nothing is stored past the end of \<^verbatim>\<open>mask\<close>.
\<close>

lemma parse_cidr_example:
  "parse_cidr (\<lambda>h. Inr \<lparr>ai_family = 2, ai_addr = \<lparr>sa_family = 2, sa_addr = [10, 1, 2, 3]\<rparr>\<rparr>)
     \<lparr>name = None, head = []\<rparr> (Some ''10.1.2.3/8'')
    = (CFGPARSER_OK, \<lparr>name = None, head = [\<lparr>family = 2, len = 4,
        addr = [10, 0, 0, 0, 0, 0, 0, 0, 0, 0, 0, 0, 0, 0, 0, 0],
        mask = [255, 0, 0, 0, 0, 0, 0, 0, 0, 0, 0, 0, 0, 0, 0, 0]\<rparr>]\<rparr>, [])"
  by code_simp


section \<open>Regular expressions\<close>

text \<open>
  Patterns are compiled by the C library (\<^verbatim>\<open>regcomp\<close>), outside the program.  A compiled
  pattern is represented by the set of texts it matches; \<^verbatim>\<open>regexec\<close> returns 0 on a
  match and \<^verbatim>\<open>REG_NOMATCH\<close> otherwise.
\<close>

type_synonym regex_t = "string \<Rightarrow> bool"

definition REG_NOMATCH :: int where
  "REG_NOMATCH = 1"

definition regexec :: "regex_t \<Rightarrow> string \<Rightarrow> int" where
  "regexec re s = (if re s then 0 else REG_NOMATCH)"

record matcher =
  pat :: regex_t

section \<open>Header lists (http.c)\<close>

datatype header_code =
    HEADER_ILLEGAL | HEADER_OTHER | HEADER_TRANSFER_ENCODING | HEADER_CONTENT_LENGTH
  | HEADER_CONNECTION | HEADER_LOCATION | HEADER_CONTLOCATION | HEADER_HOST
  | HEADER_REFERER | HEADER_USER_AGENT | HEADER_DESTINATION | HEADER_EXPECT
  | HEADER_UPGRADE | HEADER_AUTHORIZATION

text \<open>
  \<^verbatim>\<open>struct http_header\<close>: the text of the line, the spans of the name and of the value
  in it, and the classification.  The owned copy of the value is computed from the span
  when it is asked for.
\<close>

record http_header =
  header :: string
  code :: header_code
  name_start :: nat
  name_end :: nat
  val_start :: nat
  val_end :: nat

text \<open>
  \<^verbatim>\<open>http_header_list_filter\<close>: walk the list and remove every header for which
  \<^verbatim>\<open>regexec\<close> returns a non-zero value.
\<close>

fun http_header_list_filter :: "http_header list \<Rightarrow> matcher \<Rightarrow> http_header list" where
  "http_header_list_filter [] m = []"
| "http_header_list_filter (hdr # rest) m =
     (if regexec (pat m) (header hdr) \<noteq> 0
      then http_header_list_filter rest m
      else hdr # http_header_list_filter rest m)"

text \<open>The removal loop of \<^verbatim>\<open>do_http\<close> over the listener's \<^verbatim>\<open>head_off\<close> list.\<close>

fun filter_head_off :: "http_header list \<Rightarrow> matcher list \<Rightarrow> http_header list" where
  "filter_head_off hs [] = hs"
| "filter_head_off hs (m # ms) = filter_head_off (http_header_list_filter hs m) ms"

subsection \<open>What the filter keeps\<close>

lemma http_header_list_filter_eq:
  "http_header_list_filter hs m = filter (\<lambda>h. pat m (header h)) hs"
  by (induction hs) (auto simp: regexec_def REG_NOMATCH_def)

text \<open>
  C3.  The claim is that the filter removes exactly the headers whose text matches the
  pattern.  On the list \<^verbatim>\<open>Host: h\<close>, \<^verbatim>\<open>X-Foo: 1\<close> and a pattern that matches the
  texts beginning with \<^verbatim>\<open>X-Foo:\<close>, the code removes \<^verbatim>\<open>Host: h\<close> and keeps
  \<^verbatim>\<open>X-Foo: 1\<close>: the test of \<^verbatim>\<open>regexec\<close> is inverted.
\<close>

theorem http_header_list_filter_keeps_matching:
  "http_header_list_filter
     [\<lparr>header = ''Host: h'', code = HEADER_HOST,
       name_start = 0, name_end = 4, val_start = 6, val_end = 7\<rparr>,
      \<lparr>header = ''X-Foo: 1'', code = HEADER_OTHER,
       name_start = 0, name_end = 5, val_start = 7, val_end = 8\<rparr>]
     \<lparr>pat = (\<lambda>s. take 6 s = ''X-Foo:'')\<rparr>
   = [\<lparr>header = ''X-Foo: 1'', code = HEADER_OTHER,
       name_start = 0, name_end = 5, val_start = 7, val_end = 8\<rparr>]"
  by (simp add: regexec_def REG_NOMATCH_def)

section \<open>Address lookup (resolver.c)\<close>

datatype dns_status = dns_success | dns_not_found | dns_temp_failure | dns_failure

definition PF_UNSPEC :: int where "PF_UNSPEC = 0"
definition PF_INET :: int where "PF_INET = 2"
definition PF_INET6 :: int where "PF_INET6 = 10"

text \<open>
  \<^verbatim>\<open>adns_answer\<close>, as far as \<^verbatim>\<open>dns_lookup\<close> reads it: the expiry time and the
  records, \<^verbatim>\<open>nrrs\<close> being their number.  An A answer holds 32-bit addresses, an AAAA
  answer 128-bit ones.
\<close>

record 'a adns_answer =
  expires :: int
  rrs :: "'a list"

definition nrrs :: "'a adns_answer \<Rightarrow> nat" where
  "nrrs ans = length (rrs ans)"

text \<open>
  An element of the \<^verbatim>\<open>addr\<close> array of a response: zero-filled by \<^verbatim>\<open>calloc\<close>, or
  written through the \<^verbatim>\<open>s_in\<close> or the \<^verbatim>\<open>s_in6\<close> member (family, port, address).
  The \<^verbatim>\<open>type\<close> of a response built here is always \<^verbatim>\<open>dns_resp_addr\<close> and is left out.
\<close>

datatype dns_addr = Zeroed | S_in int int "32 word" | S_in6 int int "128 word"

record dns_response =
  count :: nat
  resp_expires :: int
  resp_addr :: "dns_addr list"

text \<open>
  \<^verbatim>\<open>dns_query\<close> drives the resolver library; \<^verbatim>\<open>dns_lookup\<close> receives from it a status
  and, when the library call succeeded, an answer.  It is a parameter here, one function
  per record type.  The two \<^verbatim>\<open>calloc\<close> calls are parameters as well (\<open>True\<close> when the
  allocation succeeds), and so is the indeterminate value that \<^verbatim>\<open>rc_a\<close> holds when
  the A query is skipped.  The arguments \<^verbatim>\<open>name\<close> and \<^verbatim>\<open>family\<close> are called
  \<open>host\<close> and \<open>fam\<close>.
\<close>

definition copy_a :: "dns_addr list \<Rightarrow> 32 word list \<Rightarrow> dns_addr list" where
  "copy_a arr xs = fold (\<lambda>i a. a[i := S_in AF_INET 0 (xs ! i)]) [0..<length xs] arr"

definition copy_aaaa :: "dns_addr list \<Rightarrow> 128 word list \<Rightarrow> dns_addr list" where
  "copy_aaaa arr xs = fold (\<lambda>i a. a[i := S_in6 AF_INET6 0 (xs ! i)]) [0..<length xs] arr"

definition dns_lookup ::
  "(string \<Rightarrow> dns_status \<times> 32 word adns_answer option) \<Rightarrow>
   (string \<Rightarrow> dns_status \<times> 128 word adns_answer option) \<Rightarrow>
   bool \<Rightarrow> bool \<Rightarrow> dns_status \<Rightarrow>
   string \<Rightarrow> int \<Rightarrow> dns_status \<times> dns_response option" where
  "dns_lookup query_a query_aaaa alloc_resp alloc_addr rc_a_init host fam =
     (let (rc_a, ans_a) =
            (if fam = PF_UNSPEC \<or> fam = PF_INET then query_a host
             else (rc_a_init, None))
      in if (fam = PF_UNSPEC \<or> fam = PF_INET) \<and> rc_a \<noteq> dns_success \<and> fam = PF_INET
         then (rc_a, None)
         else
           let (rc, ans_aaaa) =
                 (if fam = PF_UNSPEC \<or> fam = PF_INET6 then query_aaaa host
                  else (dns_success, None));
               early =
                 (if fam = PF_UNSPEC \<or> fam = PF_INET6
                  then (case rc of
                          dns_success \<Rightarrow> None
                        | dns_not_found \<Rightarrow>
                            if rc_a \<noteq> dns_success then Some dns_not_found else None
                        | dns_temp_failure \<Rightarrow>
                            if rc_a \<noteq> dns_success then Some rc_a else None
                        | dns_failure \<Rightarrow>
                            if rc_a \<noteq> dns_success then Some rc else None)
                  else None)
           in case early of
                Some r \<Rightarrow> (r, None)
              | None \<Rightarrow>
                 let cnt = (case ans_a of Some a \<Rightarrow> nrrs a | None \<Rightarrow> 0) +
                           (case ans_aaaa of Some a \<Rightarrow> nrrs a | None \<Rightarrow> 0)
                 in if \<not> alloc_resp then (dns_failure, None)
                    else
                      let resp0 = \<lparr>count = 0, resp_expires = 0, resp_addr = []\<rparr>
                      in if cnt = 0 then (dns_success, Some resp0)
                         else if \<not> alloc_addr then (dns_failure, None)
                         else
                           let resp1 = resp0\<lparr>resp_addr := replicate cnt Zeroed\<rparr>;
                               resp2 = (case ans_a of
                                          None \<Rightarrow> resp1
                                        | Some a \<Rightarrow>
                                            resp1\<lparr>resp_expires := expires a,
                                                  resp_addr := copy_a (resp_addr resp1) (rrs a),
                                                  count := count resp1 + nrrs a\<rparr>);
                               resp3 = (case ans_aaaa of
                                          None \<Rightarrow> resp2
                                        | Some a \<Rightarrow>
                                            resp2\<lparr>resp_expires :=
                                                    (if expires a < resp_expires resp2
                                                     then expires a else resp_expires resp2),
                                                  resp_addr := copy_aaaa (resp_addr resp2) (rrs a),
                                                  count := count resp2 + nrrs a\<rparr>)
                           in (dns_success, Some resp3))"

text \<open>
  C8.  The claim is that with both queries successful the response holds every address
  of both answers.  With the A answer 1.2.3.4 (expiring at 100) and the AAAA answer ::1
  (expiring at 50), the response counts two addresses, but its array holds ::1 in the
  first slot and a zero-filled second slot: the AAAA loop indexes the array from 0 again
  and overwrites the A entries.  The address 1.2.3.4 is lost.
\<close>

theorem dns_lookup_overwrites_a_records:
  "dns_lookup
     (\<lambda>n. (dns_success, Some \<lparr>expires = 100, rrs = [0x01020304]\<rparr>))
     (\<lambda>n. (dns_success, Some \<lparr>expires = 50, rrs = [1]\<rparr>))
     True True dns_success ''host.example'' PF_UNSPEC
   = (dns_success,
      Some \<lparr>count = 2, resp_expires = 50,
            resp_addr = [S_in6 AF_INET6 0 1, Zeroed]\<rparr>)"
  by (simp add: dns_lookup_def nrrs_def copy_a_def copy_aaaa_def PF_UNSPEC_def PF_INET_def
        PF_INET6_def)

section \<open>Template expansion (http.c)\<close>

text \<open>
  \<^verbatim>\<open>struct submatch\<close>: the number of captures of the last match and their offsets
  (\<^verbatim>\<open>rm_so\<close>, \<^verbatim>\<open>rm_eo\<close>) into the matched text; a group that took no part in the match
  has both offsets -1.  The structure is declared in a header that is not among the
  sources; \<^verbatim>\<open>matchn\<close> is taken to be a \<^verbatim>\<open>size_t\<close>, so that the comparison
  \<^verbatim>\<open>n < sm->matchn\<close> is one of unsigned values.
\<close>

record submatch =
  matchn :: nat
  matchv :: "(int \<times> int) list"

text \<open>\<^verbatim>\<open>stringbuf_add (&sb, orig_url + rm_so, rm_eo - rm_so)\<close>.\<close>

definition substr :: "string \<Rightarrow> int \<times> int \<Rightarrow> string" where
  "substr s m = take (nat (snd m - fst m)) (drop (nat (fst m)) s)"

text \<open>
  The loop of \<^verbatim>\<open>expand_url\<close>.  The template is a NUL-terminated string; \<open>url\<close> is the
  text from the pointer to the terminator.  The loop makes no progress when a \<^verbatim>\<open>$\<close>
  is followed by a character that is neither \<^verbatim>\<open>$\<close> nor a digit, so it is given fuel:
  \<open>None\<close> means that it has not returned within that many iterations.  When \<^verbatim>\<open>$\<close> is
  the last character, \<^verbatim>\<open>url += 2\<close> steps over the terminator and the next test
  \<^verbatim>\<open>*url\<close> reads past the end of the template: the result is \<open>Inl ()\<close>.
  Otherwise the result is the buffer and the final value of \<^verbatim>\<open>redir_req\<close>.
\<close>

fun expand_loop ::
  "nat \<Rightarrow> submatch \<Rightarrow> string \<Rightarrow> string \<Rightarrow> string \<Rightarrow> int \<Rightarrow> (unit + string \<times> int) option" where
  "expand_loop 0 sm orig url sb redir_req = None"
| "expand_loop (Suc k) sm orig url sb redir_req =
     (if url = [] then Some (Inr (sb, redir_req))
      else
        let sb1 = sb @ takeWhile (\<lambda>c. c \<noteq> CHR ''$'') url;
            u = dropWhile (\<lambda>c. c \<noteq> CHR ''$'') url
        in if u = [] then Some (Inr (sb1, redir_req))
           else if tl u = [] then Some (Inl ())
           else if hd (tl u) = CHR ''$'' then expand_loop k sm orig (tl (tl u)) (sb1 @ [hd u]) redir_req
           else if isdigit_c (hd (tl u)) then
             (case strtoul (tl u) of
                (n, p, errno) \<Rightarrow>
                  if errno then expand_loop k sm orig (tl u) (sb1 @ [hd u]) redir_req
                  else expand_loop k sm orig p
                         (sb1 @ (if n < int (matchn sm) then substr orig (matchv sm ! nat n)
                                 else take (length u - length p) u))
                         1)
           else expand_loop k sm orig u sb1 redir_req)"

datatype expand_result = Expanded string | Null | Overread

text \<open>
  \<^verbatim>\<open>expand_url\<close>.  \<open>sb_ok\<close> tells whether the string buffer could allocate its memory;
  when it could not, \<^verbatim>\<open>stringbuf_finish\<close> returns \<^verbatim>\<open>NULL\<close>.
\<close>

definition expand_url ::
  "nat \<Rightarrow> bool \<Rightarrow> string \<Rightarrow> string \<Rightarrow> submatch \<Rightarrow> int \<Rightarrow> expand_result option" where
  "expand_url fuel sb_ok url orig_url sm redir_req =
     (case expand_loop fuel sm orig_url url [] redir_req of
        None \<Rightarrow> None
      | Some (Inl _) \<Rightarrow> Some Overread
      | Some (Inr (sb, r)) \<Rightarrow>
          Some (if sb_ok then Expanded (if r = 0 then sb @ orig_url else sb) else Null))"

text \<open>
  Templates by their parts, to state what expansion does: literal text without
  \<^verbatim>\<open>$\<close>, the escape \<^verbatim>\<open>$$\<close>, and a reference \<^verbatim>\<open>$N\<close> given by its digits.
\<close>

datatype tmpl_part = Lit string | Dollar | Ref string

fun render_part :: "tmpl_part \<Rightarrow> string" where
  "render_part (Lit s) = s"
| "render_part Dollar = ''$$''"
| "render_part (Ref ds) = CHR ''$'' # ds"

definition render :: "tmpl_part list \<Rightarrow> string" where
  "render ts = concat (map render_part ts)"

text \<open>
  What each part expands to: a reference to a capture that the vector holds gives the
  captured text (empty for a group that took no part in the match), a reference beyond
  the vector is copied as it stands.
\<close>

fun expand_part :: "submatch \<Rightarrow> string \<Rightarrow> tmpl_part \<Rightarrow> string" where
  "expand_part sm orig (Lit s) = s"
| "expand_part sm orig Dollar = ''$''"
| "expand_part sm orig (Ref ds) =
     (if dec_val ds < int (matchn sm) then substr orig (matchv sm ! nat (dec_val ds))
      else CHR ''$'' # ds)"

fun is_ref :: "tmpl_part \<Rightarrow> bool" where
  "is_ref (Ref ds) = True"
| "is_ref p = False"

text \<open>
  The parts of a template are well formed when literal text holds no \<^verbatim>\<open>$\<close>, a
  reference has at least one digit, only digits, a value within \<^verbatim>\<open>unsigned long\<close>,
  and is not followed by a further digit.
\<close>

fun wf_parts :: "tmpl_part list \<Rightarrow> bool" where
  "wf_parts [] = True"
| "wf_parts (Lit s # ts) = (CHR ''$'' \<notin> set s \<and> wf_parts ts)"
| "wf_parts (Dollar # ts) = wf_parts ts"
| "wf_parts (Ref ds # ts) =
     (ds \<noteq> [] \<and> list_all isdigit_c ds \<and> dec_val ds \<le> ULONG_MAX \<and>
      (render ts = [] \<or> \<not> isdigit_c (hd (render ts))) \<and> wf_parts ts)"

subsection \<open>Expansion of well-formed templates\<close>

lemma lit_absorb:
  assumes a: "CHR ''$'' \<notin> set s"
  shows "expand_loop (Suc k) sm orig (s @ u) sb r = expand_loop (Suc k) sm orig u (sb @ s) r"
proof -
  from a have ne: "x \<in> set s \<Longrightarrow> x \<noteq> CHR ''$''" for x
    by auto
  have tw: "takeWhile (\<lambda>c. c \<noteq> CHR ''$'') (s @ u) = s @ takeWhile (\<lambda>c. c \<noteq> CHR ''$'') u"
    by (rule takeWhile_append2) (rule ne)
  have dw: "dropWhile (\<lambda>c. c \<noteq> CHR ''$'') (s @ u) = dropWhile (\<lambda>c. c \<noteq> CHR ''$'') u"
    by (rule dropWhile_append2) (rule ne)
  show ?thesis
  proof (cases "u = []")
    case True
    with tw dw show ?thesis by (cases "s = []") (simp_all add: Let_def)
  next
    case False
    then show ?thesis using tw dw by (simp add: Let_def)
  qed
qed

lemma digit_not_dollar: "isdigit_c c \<Longrightarrow> c \<noteq> CHR ''$''"
  by (auto simp: isdigit_c_def ord_def)

lemma digit_not_space: "isdigit_c c \<Longrightarrow> \<not> isspace_c c \<and> c \<noteq> CHR ''-'' \<and> c \<noteq> CHR ''+''"
  by (auto simp: isdigit_c_def isspace_c_def ord_def)

lemma strtoul_digits:
  assumes "ds \<noteq> []" "list_all isdigit_c ds" "dec_val ds \<le> ULONG_MAX"
    and "rest = [] \<or> \<not> isdigit_c (hd rest)"
  shows "strtoul (ds @ rest) = (dec_val ds, rest, False)"
proof -
  from assms obtain d ds' where ds: "ds = d # ds'" and d: "isdigit_c d"
    by (cases ds) auto
  from assms(2) have all: "x \<in> set ds \<Longrightarrow> isdigit_c x" for x
    by (simp add: list_all_iff)
  have tw0: "takeWhile isdigit_c rest = []"
    using assms(4) by (cases rest) auto
  have dw0: "dropWhile isdigit_c rest = rest"
    using assms(4) by (cases rest) auto
  have tw: "takeWhile isdigit_c (ds @ rest) = ds"
    using takeWhile_append2 [of ds isdigit_c rest] all tw0 by simp
  have dw: "dropWhile isdigit_c (ds @ rest) = rest"
    using dropWhile_append2 [of ds isdigit_c rest] all dw0 by simp
  have sp: "dropWhile isspace_c (ds @ rest) = ds @ rest"
    using d digit_not_space [of d] by (simp add: ds)
  have hd: "hd (ds @ rest) = d" by (simp add: ds)
  show ?thesis
    unfolding strtoul_def sp Let_def
    using d digit_not_space [of d] assms(1,3) tw dw hd
    by (simp add: ds)
qed

lemma render_Cons: "render (t # ts) = render_part t @ render ts"
  by (simp add: render_def)

lemma expand_loop_parts:
  "wf_parts ts \<Longrightarrow> length ts < fuel \<Longrightarrow>
   expand_loop fuel sm orig (render ts) sb r =
     Some (Inr (sb @ concat (map (expand_part sm orig) ts), if list_ex is_ref ts then 1 else r))"
proof (induction ts arbitrary: fuel sb r)
  case Nil
  then obtain k where "fuel = Suc k" by (cases fuel) auto
  then show ?case by (simp add: render_def)
next
  case (Cons t ts)
  from Cons.prems obtain k where fuel: "fuel = Suc k" and k: "length ts < k"
    by (cases fuel) auto
  show ?case
  proof (cases t)
    case (Lit s)
    with Cons.prems have a: "CHR ''$'' \<notin> set s" and wf: "wf_parts ts" by auto
    have "expand_loop fuel sm orig (render (t # ts)) sb r =
            expand_loop (Suc k) sm orig (render ts) (sb @ s) r"
      unfolding fuel render_Cons Lit using lit_absorb [OF a] by simp
    also have "\<dots> = Some (Inr ((sb @ s) @ concat (map (expand_part sm orig) ts),
                              if list_ex is_ref ts then 1 else r))"
      using wf k by (intro Cons.IH) auto
    finally show ?thesis by (simp add: Lit)
  next
    case Dollar
    with Cons.prems have wf: "wf_parts ts" by auto
    have "expand_loop fuel sm orig (render (t # ts)) sb r =
            expand_loop k sm orig (render ts) (sb @ ''$'') r"
      unfolding fuel render_Cons Dollar by (simp add: Let_def)
    also have "\<dots> = Some (Inr ((sb @ ''$'') @ concat (map (expand_part sm orig) ts),
                              if list_ex is_ref ts then 1 else r))"
      using wf k by (intro Cons.IH) auto
    finally show ?thesis by (simp add: Dollar)
  next
    case (Ref ds)
    with Cons.prems have ds: "ds \<noteq> []" "list_all isdigit_c ds" "dec_val ds \<le> ULONG_MAX"
      and nx: "render ts = [] \<or> \<not> isdigit_c (hd (render ts))" and wf: "wf_parts ts"
      by auto
    from ds obtain d ds' where dd: "ds = d # ds'" and d: "isdigit_c d"
      by (cases ds) auto
    have st: "strtoul (ds @ render ts) = (dec_val ds, render ts, False)"
      using ds nx by (rule strtoul_digits)
    have "expand_loop fuel sm orig (render (t # ts)) sb r =
            expand_loop k sm orig (render ts) (sb @ expand_part sm orig (Ref ds)) 1"
      unfolding fuel render_Cons Ref
      using st d digit_not_dollar [OF d] by (simp add: Let_def dd)
    also have "\<dots> = Some (Inr ((sb @ expand_part sm orig (Ref ds)) @
                                concat (map (expand_part sm orig) ts),
                              if list_ex is_ref ts then 1 else 1))"
      using wf k by (intro Cons.IH) auto
    finally show ?thesis by (simp add: Ref)
  qed
qed

text \<open>
  A \<^verbatim>\<open>$\<close> followed by a character that is neither \<^verbatim>\<open>$\<close> nor a digit stops the loop
  from advancing: no amount of fuel makes it return.
\<close>

lemma expand_loop_stuck:
  "expand_loop fuel sm orig ''$a'' sb r = None"
  by (induction fuel) (simp_all add: Let_def isdigit_c_def ord_def)

text \<open>
  C4 (as amended).  For a well-formed template the expansion returns, and its result is
  the concatenation of the expansions of the parts: literal text and \<^verbatim>\<open>$$\<close> as
  themselves, \<^verbatim>\<open>$N\<close> with \<open>N\<close> below the number of captures as the captured text (empty
  for a group that took no part in the match), and \<^verbatim>\<open>$N\<close> with \<open>N\<close> beyond the
  capture vector as the unchanged text \<^verbatim>\<open>$N\<close>.  The original URL is appended when
  \<^verbatim>\<open>redir_req\<close> is 0 and the template has no reference; so a template without \<^verbatim>\<open>$\<close>
  expands to itself only when \<^verbatim>\<open>redir_req\<close> is not 0.
\<close>

theorem expand_url_parts:
  assumes "wf_parts ts" and "length ts < fuel"
  shows "expand_url fuel True (render ts) orig sm redir_req =
           Some (Expanded (concat (map (expand_part sm orig) ts) @
                           (if redir_req = 0 \<and> \<not> list_ex is_ref ts then orig else [])))"
  using expand_loop_parts [OF assms, of sm orig "[]" redir_req]
  by (simp add: expand_url_def)

theorem expand_url_parts_witness:
  "wf_parts [Lit ''/a/'', Ref ''1'', Lit ''/b''] \<and>
   expand_url 4 True ''/a/$1/b'' ''/old'' \<lparr>matchn = 0, matchv = []\<rparr> 0 =
     Some (Expanded ''/a/$1/b'')"
proof -
  have wf: "wf_parts [Lit ''/a/'', Ref ''1'', Lit ''/b'']"
    by (simp add: isdigit_c_def ord_def dec_val_def digit_val_def ULONG_MAX_def render_def)
  have len: "length [Lit ''/a/'', Ref ''1'', Lit ''/b''] < 4"
    by simp
  from expand_url_parts [OF wf len, of "''/old''" "\<lparr>matchn = 0, matchv = []\<rparr>" 0]
  have "expand_url 4 True ''/a/$1/b'' ''/old'' \<lparr>matchn = 0, matchv = []\<rparr> 0 =
          Some (Expanded ''/a/$1/b'')"
    by (simp add: render_def dec_val_def digit_val_def ord_def)
  with wf show ?thesis
    by (rule conjI)
qed

text \<open>
  C4 as stated fails twice: with an empty capture vector \<^verbatim>\<open>$1\<close> is not replaced by the
  empty string but copied, and the template \<^verbatim>\<open>/new\<close>, which has no \<^verbatim>\<open>$\<close>, expands
  with \<^verbatim>\<open>redir_req = 0\<close> to \<^verbatim>\<open>/new/old\<close>, the template followed by the original URL.
\<close>

theorem expand_url_absent_capture_counterexample:
  "expand_url 4 True ''/a/$1/b'' ''/old'' \<lparr>matchn = 0, matchv = []\<rparr> 1 = Some (Expanded ''/a/$1/b'') \<and>
   expand_url 4 True ''/a/$1/b'' ''/old'' \<lparr>matchn = 0, matchv = []\<rparr> 1 \<noteq> Some (Expanded ''/a//b'') \<and>
   expand_url 4 True ''/new'' ''/old'' \<lparr>matchn = 0, matchv = []\<rparr> 0 = Some (Expanded ''/new/old'') \<and>
   expand_url 4 True ''/new'' ''/old'' \<lparr>matchn = 0, matchv = []\<rparr> 0 \<noteq> Some (Expanded ''/new'')"
  by code_simp

section \<open>Reading a request (http.c)\<close>

text \<open>
  A \<^verbatim>\<open>BIO\<close> to read from: the bytes that \<^verbatim>\<open>BIO_read\<close> will still deliver one at a
  time, and what it returns once they are used up: 0 (end of input), -1 (error or
  time-out) or -2 (not implemented).
\<close>

datatype bio_end = BIO_EOF | BIO_ERR | BIO_UNSUPP

record bio =
  pending :: string
  at_end :: bio_end

definition NUL :: char where "NUL = CHR 0x00"
definition TAB :: char where "TAB = CHR 0x09"
definition LF :: char where "LF = CHR 0x0A"
definition CR :: char where "CR = CHR 0x0D"

text \<open>The text of a C string held in a buffer: the characters before the first NUL.\<close>

definition cstr :: "string \<Rightarrow> string" where
  "cstr buf = takeWhile (\<lambda>c. c \<noteq> NUL) buf"

text \<open>
  The loop \<^verbatim>\<open>do { if (BIO_read (in, &tmp, 1) <= 0) return 1; } while (tmp != '\n');
  return 1;\<close> that drops the rest of a line.  It always returns 1; the function gives
  the input that remains.
\<close>

fun skip_line :: "string \<Rightarrow> string" where
  "skip_line [] = []"
| "skip_line (c # cs) = (if c = LF then cs else skip_line cs)"

text \<open>
  The \<^verbatim>\<open>for\<close> loop of \<^verbatim>\<open>get_line\<close>, from index \<open>i\<close>: the result is the return value,
  the buffer and the input that remains.
\<close>

fun get_line_loop ::
  "string \<Rightarrow> bio_end \<Rightarrow> string \<Rightarrow> nat \<Rightarrow> nat \<Rightarrow> bool \<Rightarrow> int \<times> string \<times> string" where
  "get_line_loop [] e buf bufsize i seen_cr =
     (if int i < int bufsize - 1
      then (case e of BIO_UNSUPP \<Rightarrow> (-1, buf, []) | BIO_EOF \<Rightarrow> (1, buf, []) | BIO_ERR \<Rightarrow> (1, buf, []))
      else (1, buf, []))"
| "get_line_loop (tmp # rest) e buf bufsize i seen_cr =
     (if int i < int bufsize - 1
      then
        if seen_cr then
          (if tmp \<noteq> LF then (1, buf, skip_line rest)
           else (0, buf[i - 1 := NUL], rest))
        else if \<not> iscntrl_c tmp \<or> tmp = TAB
          then get_line_loop rest e (buf[i := tmp]) bufsize (Suc i) seen_cr
        else if tmp = CR
          then get_line_loop rest e buf bufsize (Suc i) True
        else if tmp = LF
          then (0, buf[i := NUL], rest)
        else (1, buf, skip_line rest)
      else (1, buf, skip_line (tmp # rest)))"

definition get_line :: "bio \<Rightarrow> nat \<Rightarrow> int \<times> string \<times> bio" where
  "get_line b bufsize =
     (case get_line_loop (pending b) (at_end b) (replicate bufsize NUL) bufsize 0 False of
        (rc, buf, rest) \<Rightarrow> (rc, buf, b\<lparr>pending := rest\<rparr>))"

text \<open>Comparison without regard to case, as \<^verbatim>\<open>strcasecmp\<close> makes it in the C locale.\<close>

definition tolower_c :: "char \<Rightarrow> char" where
  "tolower_c c = (if 65 \<le> ord c \<and> ord c \<le> 90 then char_of (ord c + 32) else c)"

definition strcasecmp0 :: "string \<Rightarrow> string \<Rightarrow> bool" where
  "strcasecmp0 a b = (map tolower_c a = map tolower_c b)"

text \<open>
  \<^verbatim>\<open>qualify_header\<close>.  The pattern \<^verbatim>\<open>HEADER\<close> is compiled outside these sources; it is a
  parameter that gives, for a line it matches, the spans of the name and of the value.
\<close>

type_synonym header_pattern = "string \<Rightarrow> ((nat \<times> nat) \<times> (nat \<times> nat)) option"

definition hd_types :: "(string \<times> header_code) list" where
  "hd_types =
     [(''Transfer-encoding'', HEADER_TRANSFER_ENCODING),
      (''Content-length'', HEADER_CONTENT_LENGTH),
      (''Connection'', HEADER_CONNECTION),
      (''Location'', HEADER_LOCATION),
      (''Content-location'', HEADER_CONTLOCATION),
      (''Host'', HEADER_HOST),
      (''Referer'', HEADER_REFERER),
      (''User-agent'', HEADER_USER_AGENT),
      (''Destination'', HEADER_DESTINATION),
      (''Expect'', HEADER_EXPECT),
      (''Upgrade'', HEADER_UPGRADE),
      (''Authorization'', HEADER_AUTHORIZATION)]"

fun find_hd_type :: "(string \<times> header_code) list \<Rightarrow> string \<Rightarrow> header_code" where
  "find_hd_type [] nm = HEADER_OTHER"
| "find_hd_type ((h, v) # tab) nm =
     (if length nm = length h \<and> strcasecmp0 nm h then v else find_hd_type tab nm)"

definition qualify_header :: "header_pattern \<Rightarrow> string \<Rightarrow> http_header" where
  "qualify_header HEADER text =
     (case HEADER text of
        Some ((so1, eo1), (so2, eo2)) \<Rightarrow>
          \<lparr>header = text,
           code = find_hd_type hd_types (take (eo1 - so1) (drop so1 text)),
           name_start = so1, name_end = eo1, val_start = so2, val_end = eo2\<rparr>
      | None \<Rightarrow>
          \<lparr>header = text, code = HEADER_ILLEGAL,
           name_start = 0, name_end = 0, val_start = 0, val_end = 0\<rparr>)"

text \<open>\<^verbatim>\<open>http_header_get_value\<close>: the text of the value span.\<close>

definition http_header_get_value :: "http_header \<Rightarrow> string" where
  "http_header_get_value hdr = take (val_end hdr - val_start hdr) (drop (val_start hdr) (header hdr))"

text \<open>Request methods, in the order of the table \<^verbatim>\<open>methods\<close>.\<close>

datatype http_method =
    METH_GET | METH_POST | METH_HEAD | METH_PUT | METH_PATCH | METH_DELETE
  | METH_LOCK | METH_UNLOCK | METH_PROPFIND | METH_PROPPATCH | METH_SEARCH
  | METH_MKCOL | METH_MOVE | METH_COPY | METH_OPTIONS | METH_TRACE
  | METH_MKACTIVITY | METH_CHECKOUT | METH_MERGE | METH_REPORT | METH_SUBSCRIBE
  | METH_UNSUBSCRIBE | METH_BPROPPATCH | METH_POLL | METH_BMOVE | METH_BCOPY
  | METH_BDELETE | METH_BPROPFIND | METH_NOTIFY | METH_CONNECT
  | METH_RPC_IN_DATA | METH_RPC_OUT_DATA

text \<open>
  \<^verbatim>\<open>struct http_request\<close>.  After \<^verbatim>\<open>http_request_init\<close> the request line is absent, the
  header list is empty and the other fields are zero.
\<close>

record http_request =
  request :: "string option"
  "method" :: http_method
  url :: "string option"
  version :: int
  headers :: "http_header list"
  user :: "string option"

definition http_request_init :: http_request where
  "http_request_init =
     \<lparr>request = None, method = METH_GET, url = None, version = 0, headers = [], user = None\<rparr>"

lemma skip_line_length: "length (skip_line s) \<le> length s"
  by (induction s) auto

lemma get_line_loop_length:
  "get_line_loop inp e buf bufsize i cr = (rc, buf', rest) \<Longrightarrow> length rest \<le> length inp"
proof (induction inp e buf bufsize i cr rule: get_line_loop.induct)
  case (1 e buf bufsize i seen_cr)
  then show ?case by (auto split: if_splits bio_end.splits)
next
  case (2 tmp rest0 e buf bufsize i seen_cr)
  have sk: "length (skip_line rest0) \<le> length rest0" by (rule skip_line_length)
  from 2 sk show ?case
    by (auto split: if_splits simp: le_Suc_eq)
qed

lemma get_line_loop_consumes:
  "get_line_loop inp e buf bufsize i cr = (0, buf', rest) \<Longrightarrow> length rest < length inp"
proof (induction inp e buf bufsize i cr rule: get_line_loop.induct)
  case (1 e buf bufsize i seen_cr)
  then show ?case by (auto split: if_splits bio_end.splits)
next
  case (2 tmp rest0 e buf bufsize i seen_cr)
  then show ?case
    by (auto split: if_splits simp: less_Suc_eq)
qed

lemma get_line_consumes:
  "(0, buf, b') = get_line b n \<Longrightarrow> length (pending b') < length (pending b)"
  by (auto simp: get_line_def split: prod.splits dest: get_line_loop_consumes)

text \<open>
  The first loop of \<^verbatim>\<open>http_request_read\<close>: \<^verbatim>\<open>while ((res = get_line (...)) == 0)
  if (buf[0]) break;\<close>.  It ends with the last result of \<^verbatim>\<open>get_line\<close>.
\<close>

function read_request_line :: "bio \<Rightarrow> nat \<Rightarrow> int \<times> string \<times> bio" where
  "read_request_line b maxbuf =
     (case get_line b maxbuf of
        (res, buf, b') \<Rightarrow>
          if res = 0 then (if cstr buf \<noteq> [] then (res, buf, b') else read_request_line b' maxbuf)
          else (res, buf, b'))"
  by pat_completeness auto
termination
  by (relation "measure (\<lambda>(b, n). length (pending b))") (auto dest: get_line_consumes)

declare read_request_line.simps [simp del]

text \<open>
  The header loop of \<^verbatim>\<open>http_request_read\<close>.  \<open>alloc\<close> tells whether memory can be had.
\<close>

function read_headers ::
  "header_pattern \<Rightarrow> bool \<Rightarrow> bio \<Rightarrow> nat \<Rightarrow> http_request \<Rightarrow> int \<times> http_request \<times> bio" where
  "read_headers HEADER alloc b maxbuf req =
     (case get_line b maxbuf of
        (res, buf, b') \<Rightarrow>
          if res \<noteq> 0 then (-1, http_request_init, b')
          else if cstr buf = [] then (0, req, b')
          else if \<not> alloc then (-1, http_request_init, b')
          else
            let hdr = qualify_header HEADER (cstr buf)
            in if code hdr = HEADER_ILLEGAL then read_headers HEADER alloc b' maxbuf req
               else read_headers HEADER alloc b' maxbuf (req\<lparr>headers := headers req @ [hdr]\<rparr>))"
  by pat_completeness auto
termination
  by (relation "measure (\<lambda>(h, a, b, n, r). length (pending b))") (auto dest: get_line_consumes)

declare read_headers.simps [simp del]

text \<open>
  \<^verbatim>\<open>http_request_read\<close>, with the size \<^verbatim>\<open>MAXBUF\<close> of its line buffer as a parameter.
  Only a negative result of the first loop makes it return; a positive one (the line was
  refused, or the input ended) lets it go on with what the buffer holds.
\<close>

definition http_request_read ::
  "header_pattern \<Rightarrow> bool \<Rightarrow> nat \<Rightarrow> bio \<Rightarrow> int \<times> http_request \<times> bio" where
  "http_request_read HEADER alloc maxbuf b =
     (case read_request_line b maxbuf of
        (res, buf, b') \<Rightarrow>
          if res < 0 then (-1, http_request_init, b')
          else if \<not> alloc then (-1, http_request_init, b')
          else read_headers HEADER alloc b' maxbuf (http_request_init\<lparr>request := Some (cstr buf)\<rparr>))"

section \<open>Validating a request (http.c)\<close>

text \<open>
  \<^verbatim>\<open>STRTOL (s, &p, 10)\<close> for the 64-bit type \<^verbatim>\<open>LONG\<close>: as \<^verbatim>\<open>strtoul\<close> above, with the
  value clamped to the range of the type and \<^verbatim>\<open>errno\<close> set when the digits leave it.
\<close>

definition LONG_MAX :: int where "LONG_MAX = 9223372036854775807"
definition LONG_MIN :: int where "LONG_MIN = - 9223372036854775808"

definition strtol :: "string \<Rightarrow> int \<times> string \<times> bool" where
  "strtol s =
     (let s1 = dropWhile isspace_c s;
          neg = (s1 \<noteq> [] \<and> hd s1 = CHR ''-'');
          s2 = (if s1 \<noteq> [] \<and> (hd s1 = CHR ''-'' \<or> hd s1 = CHR ''+'') then tl s1 else s1);
          ds = takeWhile isdigit_c s2;
          rest = dropWhile isdigit_c s2;
          v = (if neg then - dec_val ds else dec_val ds)
      in if ds = [] then (0, s, False)
         else if v > LONG_MAX then (LONG_MAX, rest, True)
         else if v < LONG_MIN then (LONG_MIN, rest, True)
         else (v, rest, False))"

text \<open>The table \<^verbatim>\<open>methods\<close>: name, method and group.\<close>

definition methods :: "(string \<times> http_method \<times> int) list" where
  "methods =
     [(''GET'', METH_GET, 0), (''POST'', METH_POST, 0), (''HEAD'', METH_HEAD, 0),
      (''PUT'', METH_PUT, 1), (''PATCH'', METH_PATCH, 1), (''DELETE'', METH_DELETE, 1),
      (''LOCK'', METH_LOCK, 2), (''UNLOCK'', METH_UNLOCK, 2),
      (''PROPFIND'', METH_PROPFIND, 2), (''PROPPATCH'', METH_PROPPATCH, 2),
      (''SEARCH'', METH_SEARCH, 2), (''MKCOL'', METH_MKCOL, 2), (''MOVE'', METH_MOVE, 2),
      (''COPY'', METH_COPY, 2), (''OPTIONS'', METH_OPTIONS, 2), (''TRACE'', METH_TRACE, 2),
      (''MKACTIVITY'', METH_MKACTIVITY, 2), (''CHECKOUT'', METH_CHECKOUT, 2),
      (''MERGE'', METH_MERGE, 2), (''REPORT'', METH_REPORT, 2),
      (''SUBSCRIBE'', METH_SUBSCRIBE, 3), (''UNSUBSCRIBE'', METH_UNSUBSCRIBE, 3),
      (''BPROPPATCH'', METH_BPROPPATCH, 3), (''POLL'', METH_POLL, 3),
      (''BMOVE'', METH_BMOVE, 3), (''BCOPY'', METH_BCOPY, 3), (''BDELETE'', METH_BDELETE, 3),
      (''BPROPFIND'', METH_BPROPFIND, 3), (''NOTIFY'', METH_NOTIFY, 3),
      (''CONNECT'', METH_CONNECT, 3),
      (''RPC_IN_DATA'', METH_RPC_IN_DATA, 4), (''RPC_OUT_DATA'', METH_RPC_OUT_DATA, 4)]"

text \<open>
  \<^verbatim>\<open>find_method\<close>: the first method whose name is, without regard to case, the
  beginning of the request line (\<^verbatim>\<open>strncasecmp\<close> over the length of the name).  Its
  second argument is not used.
\<close>

fun find_method_loop ::
  "(string \<times> http_method \<times> int) list \<Rightarrow> string \<Rightarrow> (http_method \<times> int) option" where
  "find_method_loop [] str = None"
| "find_method_loop ((nm, m, g) # tab) str =
     (if length nm \<le> length str \<and> strcasecmp0 nm (take (length nm) str) then Some (m, g)
      else find_method_loop tab str)"

definition find_method :: "string \<Rightarrow> nat \<Rightarrow> (http_method \<times> int) option" where
  "find_method str n = find_method_loop methods str"

text \<open>
  \<^verbatim>\<open>decode_url\<close>, called with the text from \<^verbatim>\<open>src\<close> to the end of the request line and
  the length \<open>n\<close> of the URL in it (not more than the text has).  \<open>None\<close> is the
  result 1, given when an escape decodes to the NUL byte.  The string buffer is taken to
  find its memory.
\<close>

definition xdig :: string where
  "xdig = ''0123456789ABCDEFabcdef''"

definition xdig_val :: "char \<Rightarrow> nat" where
  "xdig_val c =
     (let i = length (takeWhile (\<lambda>x. x \<noteq> c) xdig) in if i > 15 then i - 6 else i)"

function decode_url_loop :: "string \<Rightarrow> nat \<Rightarrow> string \<Rightarrow> string option" where
  "decode_url_loop src n sb =
     (if n = 0 then Some sb
      else
        let k = length (takeWhile (\<lambda>c. c \<noteq> CHR ''%'') (take n src));
            sb1 = sb @ take k src;
            src1 = drop k src;
            n1 = n - k
        in if src1 = [] then Some sb1
           else if n1 < 3 then Some (sb1 @ take n1 src1)
           else if src1 ! 1 \<notin> set xdig
             then decode_url_loop (drop 2 src1) (n1 - 2) (sb1 @ take 2 src1)
           else if src1 ! 2 \<notin> set xdig
             then decode_url_loop (drop 3 src1) (n1 - 3) (sb1 @ take 3 src1)
           else
             let a = xdig_val (src1 ! 1) * 16 + xdig_val (src1 ! 2)
             in if a = 0 then None
                else decode_url_loop (drop 3 src1) (n1 - 3) (sb1 @ [char_of a]))"
  by pat_completeness auto
termination
  by (relation "measure (\<lambda>(src, n, sb). n)") auto

declare decode_url_loop.simps [simp del]

definition decode_url :: "string \<Rightarrow> nat \<Rightarrow> string option" where
  "decode_url src n = decode_url_loop src n []"

text \<open>
  \<^verbatim>\<open>parse_http_request\<close>: \<open>None\<close> is the result -1, otherwise the request with method,
  decoded URL and version filled in.  \<^verbatim>\<open>do_http\<close> calls it only after
  \<^verbatim>\<open>http_request_read\<close> has stored a request line.  The test \<^verbatim>\<open>str[len-1] == 0\<close>
  of the source cannot hold when \<^verbatim>\<open>len\<close> is positive, the character being one of the
  line; the last test asks for exactly \<^verbatim>\<open>HTTP/1.0\<close> or \<^verbatim>\<open>HTTP/1.1\<close> at the end.
\<close>

definition spn :: "string \<Rightarrow> string" where
  "spn s = dropWhile (\<lambda>c. c = CHR '' '') s"

definition cspn :: "string \<Rightarrow> nat" where
  "cspn s = length (takeWhile (\<lambda>c. c \<noteq> CHR '' '') s)"

definition parse_http_request :: "http_request \<Rightarrow> int \<Rightarrow> http_request option" where
  "parse_http_request req grp =
     (case request req of
        None \<Rightarrow> None
      | Some str \<Rightarrow>
          if cspn str = 0 then None
          else
            (case find_method str (cspn str) of
               None \<Rightarrow> None
             | Some (m, g) \<Rightarrow>
                 if g > grp then None
                 else
                   let str1 = spn (drop (cspn str) str)
                   in if str1 = [] then None
                      else
                        let n = cspn str1;
                            str2 = spn (drop n str1)
                        in if \<not> (str2 = ''HTTP/1.0'' \<or> str2 = ''HTTP/1.1'') then None
                           else
                             (case decode_url str1 n of
                                None \<Rightarrow> None
                              | Some u \<Rightarrow>
                                  Some (req\<lparr>method := m, url := Some u,
                                            version := (if str2 = ''HTTP/1.1'' then 1 else 0)\<rparr>))))"

text \<open>
  The listener, as far as \<^verbatim>\<open>do_http\<close> consults it before it looks for a service, and
  the field \<^verbatim>\<open>max_uri_length\<close> that the directive \<^verbatim>\<open>MaxURI\<close> of config.c stores.
  The field \<^verbatim>\<open>verb\<close> is the highest method group the listener admits.  config.c
  writes it in three places: 0 when a listener is created, 1 for the control listener,
  and the value of the directive \<^verbatim>\<open>xHTTP\<close>, which \<^verbatim>\<open>listener_parse_xhttp\<close> reads with
  \<^verbatim>\<open>cfg_assign_int_range (call_data, 0, 3)\<close>; so it lies between 0 and 3.
\<close>

record listener =
  verb :: int
  has_pat :: bool
  url_pat :: regex_t
  head_off :: "matcher list"
  max_req :: int
  max_uri_length :: nat
  log_level :: int

datatype http_status =
    HTTP_STATUS_OK | HTTP_STATUS_BAD_REQUEST | HTTP_STATUS_NOT_FOUND
  | HTTP_STATUS_PAYLOAD_TOO_LARGE | HTTP_STATUS_URI_TOO_LONG
  | HTTP_STATUS_INTERNAL_SERVER_ERROR | HTTP_STATUS_NOT_IMPLEMENTED
  | HTTP_STATUS_SERVICE_UNAVAILABLE

text \<open>The codes of the table \<^verbatim>\<open>http_status\<close>; \<^verbatim>\<open>err_reply\<close> sends the code it finds there.\<close>

fun http_status_code :: "http_status \<Rightarrow> nat" where
  "http_status_code HTTP_STATUS_OK = 200"
| "http_status_code HTTP_STATUS_BAD_REQUEST = 400"
| "http_status_code HTTP_STATUS_NOT_FOUND = 404"
| "http_status_code HTTP_STATUS_PAYLOAD_TOO_LARGE = 413"
| "http_status_code HTTP_STATUS_URI_TOO_LONG = 414"
| "http_status_code HTTP_STATUS_INTERNAL_SERVER_ERROR = 500"
| "http_status_code HTTP_STATUS_NOT_IMPLEMENTED = 501"
| "http_status_code HTTP_STATUS_SERVICE_UNAVAILABLE = 503"

definition err_reply :: "http_status \<Rightarrow> nat" where
  "err_reply err = http_status_code err"

text \<open>
  The variables of \<^verbatim>\<open>do_http\<close> that the header loop sets, with the request whose
  header list it edits.  \<^verbatim>\<open>L_1\<close> and \<^verbatim>\<open>L0\<close> are the constants -1 and 0 of type
  \<^verbatim>\<open>LONG\<close>.
\<close>

definition L_1 :: int where "L_1 = -1"
definition L0 :: int where "L0 = 0"

definition WSS_REQ_GET :: int where "WSS_REQ_GET = 0x01"
definition WSS_REQ_HEADER_CONNECTION_UPGRADE :: int where "WSS_REQ_HEADER_CONNECTION_UPGRADE = 0x02"
definition WSS_REQ_HEADER_UPGRADE_WEBSOCKET :: int where "WSS_REQ_HEADER_UPGRADE_WEBSOCKET = 0x04"

record http_vars =
  chunked :: int
  cont :: int
  conn_closed :: int
  is_ws :: int
  is_rpc :: int
  cl_11 :: int
  no_cont :: bool
  req :: http_request

text \<open>
  What is outside these sources or outside the program: the pattern \<^verbatim>\<open>CONN_UPGRD\<close>,
  \<^verbatim>\<open>get_user\<close> (which decodes a Basic authorization through the base64 filter of the
  TLS library; \<open>None\<close> when it stores no name), and whether \<^verbatim>\<open>http_header_get_value\<close>
  obtains the memory for the value of a header (\<open>False\<close>: it returns \<^verbatim>\<open>NULL\<close>).
\<close>

record http_env =
  CONN_UPGRD :: regex_t
  get_user :: "string \<Rightarrow> string option"
  value_alloc :: "http_header \<Rightarrow> bool"

text \<open>
  One round of the header loop of \<^verbatim>\<open>do_http\<close>: \<open>Inl\<close> is the status of the error reply
  after which \<^verbatim>\<open>do_http\<close> returns (\<^verbatim>\<open>goto err\<close> replies 500); \<open>Inr\<close> gives the
  variables after the round, a header that is not removed being put behind those kept so
  far.
\<close>

definition keep :: "http_header \<Rightarrow> http_vars \<Rightarrow> http_vars" where
  "keep hdr v = v\<lparr>req := (req v)\<lparr>headers := headers (req v) @ [hdr]\<rparr>\<rparr>"

definition check_header :: "http_env \<Rightarrow> http_header \<Rightarrow> http_vars \<Rightarrow> nat + http_vars" where
  "check_header env hdr v =
     (case code hdr of
        HEADER_CONNECTION \<Rightarrow>
          if \<not> value_alloc env hdr then Inl (err_reply HTTP_STATUS_INTERNAL_SERVER_ERROR)
          else if strcasecmp0 ''close'' (http_header_get_value hdr)
            then Inr (keep hdr (v\<lparr>conn_closed := 1\<rparr>))
          else if regexec (CONN_UPGRD env) (http_header_get_value hdr) = 0
            then Inr (keep hdr (v\<lparr>is_ws := is_ws v OR WSS_REQ_HEADER_CONNECTION_UPGRADE\<rparr>))
          else Inr (keep hdr v)
      | HEADER_UPGRADE \<Rightarrow>
          if \<not> value_alloc env hdr then Inl (err_reply HTTP_STATUS_INTERNAL_SERVER_ERROR)
          else if strcasecmp0 ''websocket'' (http_header_get_value hdr)
            then Inr (keep hdr (v\<lparr>is_ws := is_ws v OR WSS_REQ_HEADER_UPGRADE_WEBSOCKET\<rparr>))
          else Inr (keep hdr v)
      | HEADER_TRANSFER_ENCODING \<Rightarrow>
          if \<not> value_alloc env hdr then Inl (err_reply HTTP_STATUS_INTERNAL_SERVER_ERROR)
          else if strcasecmp0 ''chunked'' (http_header_get_value hdr)
            then Inr (keep hdr (v\<lparr>chunked := 1\<rparr>))
          else Inl (err_reply HTTP_STATUS_BAD_REQUEST)
      | HEADER_CONTENT_LENGTH \<Rightarrow>
          if \<not> value_alloc env hdr then Inl (err_reply HTTP_STATUS_INTERNAL_SERVER_ERROR)
          else if cont v \<noteq> L_1 \<or> CHR '','' \<in> set (http_header_get_value hdr)
            then Inl (err_reply HTTP_STATUS_BAD_REQUEST)
          else
            (case strtol (http_header_get_value hdr) of
               (n, p, errno) \<Rightarrow>
                 if errno \<or> p \<noteq> [] then Inl (err_reply HTTP_STATUS_BAD_REQUEST)
                 else
                   let v1 = v\<lparr>cont := n\<rparr>;
                       v2 = (if n < 0 then v1 else keep hdr v1)
                   in Inr (if is_rpc v2 = 1 \<and> (n < 0x20000 \<or> n > 0x80000000)
                           then v2\<lparr>is_rpc := -1\<rparr> else v2))
      | HEADER_EXPECT \<Rightarrow>
          if \<not> value_alloc env hdr then Inl (err_reply HTTP_STATUS_INTERNAL_SERVER_ERROR)
          else if strcasecmp0 ''100-continue'' (http_header_get_value hdr) then Inr v
          else Inr (keep hdr v)
      | HEADER_ILLEGAL \<Rightarrow> Inr v
      | HEADER_AUTHORIZATION \<Rightarrow>
          if \<not> value_alloc env hdr then Inl (err_reply HTTP_STATUS_INTERNAL_SERVER_ERROR)
          else
            (case get_user env (http_header_get_value hdr) of
               None \<Rightarrow> Inr (keep hdr v)
             | Some u \<Rightarrow> Inr (keep hdr (v\<lparr>req := (req v)\<lparr>user := Some u\<rparr>\<rparr>)))
      | _ \<Rightarrow> Inr (keep hdr v))"

fun check_headers :: "http_env \<Rightarrow> http_header list \<Rightarrow> http_vars \<Rightarrow> nat + http_vars" where
  "check_headers env [] v = Inr v"
| "check_headers env (hdr # hs) v =
     (case check_header env hdr v of
        Inl e \<Rightarrow> Inl e
      | Inr v' \<Rightarrow> check_headers env hs v')"

text \<open>
  What \<^verbatim>\<open>do_http\<close> does with a request it has read, up to the point where it looks
  for a service and a backend: either it sends an error reply and returns, or it goes
  on to \<^verbatim>\<open>get_service\<close> and \<^verbatim>\<open>get_backend\<close> with the variables as they then are.
\<close>

datatype outcome = Reply nat | Route http_vars

definition do_http_request :: "http_env \<Rightarrow> listener \<Rightarrow> http_request \<Rightarrow> outcome" where
  "do_http_request env lstn rq =
     (case parse_http_request rq (verb lstn) of
        None \<Rightarrow> Reply (err_reply HTTP_STATUS_NOT_IMPLEMENTED)
      | Some r \<Rightarrow>
          let v0 = \<lparr>chunked = 0, cont = L_1, conn_closed = 0,
                    is_ws = (if method r = METH_GET then WSS_REQ_GET else 0),
                    is_rpc = (if method r = METH_RPC_IN_DATA then 1
                              else if method r = METH_RPC_OUT_DATA then 0 else -1),
                    cl_11 = version r,
                    no_cont = (method r = METH_HEAD),
                    req = r\<lparr>headers := []\<rparr>\<rparr>
          in if has_pat lstn \<and> (case url r of None \<Rightarrow> False
                                          | Some u \<Rightarrow> regexec (url_pat lstn) u \<noteq> 0)
             then Reply (err_reply HTTP_STATUS_NOT_IMPLEMENTED)
             else
               (case check_headers env (headers r) v0 of
                  Inl e \<Rightarrow> Reply e
                | Inr v \<Rightarrow>
                    let v' = v\<lparr>req := (req v)\<lparr>headers := filter_head_off (headers (req v))
                                                               (head_off lstn)\<rparr>\<rparr>
                    in if chunked v' \<noteq> 0 \<and> cont v' \<noteq> L_1
                       then Reply (err_reply HTTP_STATUS_BAD_REQUEST)
                       else if max_req lstn > L0 \<and> cont v' > L0 \<and> cont v' > max_req lstn \<and>
                               is_rpc v' \<noteq> 1
                       then Reply (err_reply HTTP_STATUS_PAYLOAD_TOO_LARGE)
                       else Route v'))"

subsection \<open>Properties of request validation\<close>

text \<open>
  The value of a \<^verbatim>\<open>Content-Length\<close> header as \<^verbatim>\<open>do_http\<close> accepts it: no comma, and
  read by \<^verbatim>\<open>strtol\<close> to the end without a range error.
\<close>

definition cl_value :: "http_header \<Rightarrow> int option" where
  "cl_value h =
     (if CHR '','' \<in> set (http_header_get_value h) then None
      else case strtol (http_header_get_value h) of
             (n, p, errno) \<Rightarrow> if errno \<or> p \<noteq> [] then None else Some n)"

text \<open>A header that is neither \<^verbatim>\<open>Content-Length\<close> nor \<^verbatim>\<open>Transfer-Encoding\<close>.\<close>

definition benign :: "http_header \<Rightarrow> bool" where
  "benign h = (code h \<noteq> HEADER_CONTENT_LENGTH \<and> code h \<noteq> HEADER_TRANSFER_ENCODING)"

text \<open>
  A request is accepted when its request line parses and its URL passes the listener's
  pattern, that is when \<^verbatim>\<open>do_http\<close> does not answer 501.
\<close>

definition accept :: "listener \<Rightarrow> http_request \<Rightarrow> http_request option" where
  "accept lstn rq =
     (case parse_http_request rq (verb lstn) of
        None \<Rightarrow> None
      | Some r \<Rightarrow>
          if has_pat lstn \<and> (case url r of None \<Rightarrow> False
                                | Some u \<Rightarrow> regexec (url_pat lstn) u \<noteq> 0)
          then None else Some r)"

text \<open>The variables of \<^verbatim>\<open>do_http\<close> when the header loop starts.\<close>

definition initial_vars :: "http_request \<Rightarrow> http_vars" where
  "initial_vars r =
     \<lparr>chunked = 0, cont = L_1, conn_closed = 0,
      is_ws = (if method r = METH_GET then WSS_REQ_GET else 0),
      is_rpc = (if method r = METH_RPC_IN_DATA then 1
                else if method r = METH_RPC_OUT_DATA then 0 else -1),
      cl_11 = version r,
      no_cont = (method r = METH_HEAD),
      req = r\<lparr>headers := []\<rparr>\<rparr>"

lemma check_header_Inl:
  "check_header env h v = Inl e \<Longrightarrow> (e = 400 \<or> e = 500) \<and> (value_alloc env h \<longrightarrow> e = 400)"
  by (auto simp: check_header_def err_reply_def Let_def
           split: header_code.splits if_splits prod.splits option.splits)

lemma check_headers_Inl:
  "check_headers env hs v = Inl e \<Longrightarrow> (e = 400 \<or> e = 500) \<and> ((\<forall>h. value_alloc env h) \<longrightarrow> e = 400)"
proof (induction hs arbitrary: v)
  case Nil
  then show ?case by simp
next
  case (Cons h hs)
  show ?case
  proof (cases "check_header env h v")
    case (Inl e')
    with Cons.prems have "e' = e" by simp
    with Inl check_header_Inl [of env h v e] show ?thesis by auto
  next
    case (Inr v')
    with Cons.prems have "check_headers env hs v' = Inl e" by simp
    then show ?thesis by (rule Cons.IH)
  qed
qed

lemma check_header_benign:
  "benign h \<Longrightarrow> check_header env h v = Inr v' \<Longrightarrow>
   cont v' = cont v \<and> chunked v' = chunked v \<and> is_rpc v' = is_rpc v"
  by (auto simp: check_header_def benign_def keep_def Let_def
           split: header_code.splits if_splits prod.splits option.splits)

lemma check_header_benign_Inr:
  "benign h \<Longrightarrow> value_alloc env h \<Longrightarrow> \<exists>v'. check_header env h v = Inr v'"
  by (auto simp: check_header_def benign_def Let_def
           split: header_code.splits if_splits prod.splits option.splits)

lemma check_header_TE:
  "code h = HEADER_TRANSFER_ENCODING \<Longrightarrow> check_header env h v = Inr v' \<Longrightarrow>
   chunked v' = 1 \<and> cont v' = cont v \<and> is_rpc v' = is_rpc v"
  by (auto simp: check_header_def keep_def split: if_splits)

lemma check_header_CL:
  "code h = HEADER_CONTENT_LENGTH \<Longrightarrow> check_header env h v = Inr v' \<Longrightarrow>
   cont v = -1 \<and> (\<exists>n. cl_value h = Some n \<and> cont v' = n \<and> chunked v' = chunked v \<and>
      is_rpc v' = (if is_rpc v = 1 \<and> (n < 0x20000 \<or> n > 0x80000000) then -1 else is_rpc v))"
  by (auto simp: check_header_def keep_def cl_value_def L_1_def Let_def split: if_splits prod.splits)

lemma parse_http_request_headers:
  "parse_http_request rq g = Some r \<Longrightarrow> headers r = headers rq"
  by (auto simp: parse_http_request_def Let_def split: option.splits if_splits prod.splits)

lemma do_http_request_rejected:
  "accept lstn rq = None \<Longrightarrow> do_http_request env lstn rq = Reply 501"
  by (auto simp: accept_def do_http_request_def err_reply_def Let_def split: option.splits if_splits)

lemma do_http_request_accepted:
  assumes "accept lstn rq = Some r"
  shows "do_http_request env lstn rq =
     (case check_headers env (headers rq) (initial_vars r) of
        Inl e \<Rightarrow> Reply e
      | Inr v \<Rightarrow>
          if chunked v \<noteq> 0 \<and> cont v \<noteq> -1 then Reply 400
          else if max_req lstn > 0 \<and> cont v > 0 \<and> cont v > max_req lstn \<and> is_rpc v \<noteq> 1
          then Reply 413
          else Route (v\<lparr>req := (req v)\<lparr>headers := filter_head_off (headers (req v))
                                                       (head_off lstn)\<rparr>\<rparr>))"
proof -
  from assms have p: "parse_http_request rq (verb lstn) = Some r"
    and np: "\<not> (has_pat lstn \<and> (case url r of None \<Rightarrow> False
                                  | Some u \<Rightarrow> regexec (url_pat lstn) u \<noteq> 0))"
    by (auto simp: accept_def split: option.splits if_splits)
  from p have h: "headers r = headers rq"
    by (rule parse_http_request_headers)
  show ?thesis
  proof (cases "check_headers env (headers rq) (initial_vars r)")
    case (Inl e)
    then show ?thesis
      using np by (auto simp add: do_http_request_def p h initial_vars_def Let_def)
  next
    case (Inr v)
    then show ?thesis
      using np
      by (auto simp add: do_http_request_def p h initial_vars_def Let_def err_reply_def L_1_def
            L0_def)
  qed
qed

lemma check_headers_append:
  "check_headers env (xs @ ys) v =
     (case check_headers env xs v of Inl e \<Rightarrow> Inl e | Inr v1 \<Rightarrow> check_headers env ys v1)"
  by (induction xs arbitrary: v) (auto split: sum.splits)

lemma check_header_not_CL:
  "code h \<noteq> HEADER_CONTENT_LENGTH \<Longrightarrow> check_header env h v = Inr v' \<Longrightarrow> cont v' = cont v"
  using check_header_benign [of h env v v'] check_header_TE [of h env v v']
  by (cases "code h = HEADER_TRANSFER_ENCODING") (auto simp: benign_def)

lemma check_header_chunked_mono:
  "check_header env h v = Inr v' \<Longrightarrow> chunked v = 1 \<Longrightarrow> chunked v' = 1"
  using check_header_benign [of h env v v'] check_header_TE [of h env v v']
    check_header_CL [of h env v v']
  by (cases "code h = HEADER_TRANSFER_ENCODING"; cases "code h = HEADER_CONTENT_LENGTH")
     (auto simp: benign_def)

lemma check_headers_cont_fixed:
  "cont v \<noteq> -1 \<Longrightarrow> check_headers env hs v = Inr v' \<Longrightarrow>
   cont v' = cont v \<and> (\<forall>h \<in> set hs. code h \<noteq> HEADER_CONTENT_LENGTH)"
proof (induction hs arbitrary: v)
  case Nil
  then show ?case by simp
next
  case (Cons h hs)
  from Cons.prems obtain v1 where 1: "check_header env h v = Inr v1"
    and 2: "check_headers env hs v1 = Inr v'"
    by (auto split: sum.splits)
  from 1 Cons.prems(1) have ncl: "code h \<noteq> HEADER_CONTENT_LENGTH"
    using check_header_CL [of h env v v1] by auto
  then have "cont v1 = cont v" using 1 by (rule check_header_not_CL)
  with Cons.IH [OF _ 2] Cons.prems(1) ncl show ?case by auto
qed

lemma check_headers_chunked_mono:
  "check_headers env hs v = Inr v' \<Longrightarrow> chunked v = 1 \<Longrightarrow> chunked v' = 1"
proof (induction hs arbitrary: v)
  case Nil
  then show ?case by simp
next
  case (Cons h hs)
  from Cons.prems obtain v1 where 1: "check_header env h v = Inr v1"
    and 2: "check_headers env hs v1 = Inr v'"
    by (auto split: sum.splits)
  from 1 Cons.prems(2) have "chunked v1 = 1" by (rule check_header_chunked_mono)
  with 2 show ?case by (rule Cons.IH)
qed

lemma check_headers_TE:
  "check_headers env hs v = Inr v' \<Longrightarrow> h \<in> set hs \<Longrightarrow> code h = HEADER_TRANSFER_ENCODING \<Longrightarrow>
   chunked v' = 1"
proof (induction hs arbitrary: v)
  case Nil
  then show ?case by simp
next
  case (Cons x hs)
  from Cons.prems obtain v1 where 1: "check_header env x v = Inr v1"
    and 2: "check_headers env hs v1 = Inr v'"
    by (auto split: sum.splits)
  show ?case
  proof (cases "x = h")
    case True
    with 1 Cons.prems(3) have "chunked v1 = 1"
      using check_header_TE [of h env v v1] by simp
    with 2 show ?thesis by (rule check_headers_chunked_mono)
  next
    case False
    with Cons.prems(2) have "h \<in> set hs" by simp
    with 2 Cons.prems(3) show ?thesis by (intro Cons.IH)
  qed
qed

lemma check_headers_CL:
  "check_headers env hs v = Inr v' \<Longrightarrow> h \<in> set hs \<Longrightarrow> code h = HEADER_CONTENT_LENGTH \<Longrightarrow>
   \<exists>n. cl_value h = Some n \<and> (n \<noteq> -1 \<longrightarrow> cont v' = n)"
proof (induction hs arbitrary: v)
  case Nil
  then show ?case by simp
next
  case (Cons x hs)
  from Cons.prems obtain v1 where 1: "check_header env x v = Inr v1"
    and 2: "check_headers env hs v1 = Inr v'"
    by (auto split: sum.splits)
  show ?case
  proof (cases "x = h")
    case True
    with 1 Cons.prems(3) obtain n where n: "cl_value h = Some n" "cont v1 = n"
      using check_header_CL [of h env v v1] by auto
    have "cont v' = n" if "n \<noteq> -1"
      using check_headers_cont_fixed [OF _ 2] n that by simp
    with n show ?thesis by auto
  next
    case False
    with Cons.prems(2) have "h \<in> set hs" by simp
    with 2 Cons.prems(3) show ?thesis by (intro Cons.IH)
  qed
qed

lemma check_header_headers:
  "check_header env h v = Inr v' \<Longrightarrow> set (headers (req v')) \<subseteq> insert h (set (headers (req v)))"
  by (auto simp: check_header_def keep_def Let_def
           split: header_code.splits if_splits prod.splits option.splits)

lemma check_headers_benign:
  "list_all benign xs \<Longrightarrow> (\<forall>h. value_alloc env h) \<Longrightarrow>
   \<exists>v'. check_headers env xs v = Inr v' \<and> cont v' = cont v \<and> chunked v' = chunked v \<and>
        is_rpc v' = is_rpc v \<and> set (headers (req v')) \<subseteq> set (headers (req v)) \<union> set xs"
proof (induction xs arbitrary: v)
  case Nil
  then show ?case by simp
next
  case (Cons x xs)
  from Cons.prems have bx: "benign x" and bxs: "list_all benign xs" by auto
  from bx Cons.prems(2) obtain v1 where 1: "check_header env x v = Inr v1"
    using check_header_benign_Inr [of x env v] by auto
  from bx 1 have k: "cont v1 = cont v \<and> chunked v1 = chunked v \<and> is_rpc v1 = is_rpc v"
    by (rule check_header_benign)
  from 1 have s: "set (headers (req v1)) \<subseteq> insert x (set (headers (req v)))"
    by (rule check_header_headers)
  from Cons.IH [OF bxs Cons.prems(2), of v1] obtain v' where
    2: "check_headers env xs v1 = Inr v'" "cont v' = cont v1" "chunked v' = chunked v1"
       "is_rpc v' = is_rpc v1" "set (headers (req v')) \<subseteq> set (headers (req v1)) \<union> set xs"
    by blast
  from 1 2 k s show ?case by auto
qed

lemma check_header_CL_run:
  "code h = HEADER_CONTENT_LENGTH \<Longrightarrow> value_alloc env h \<Longrightarrow> cl_value h = Some n \<Longrightarrow>
   cont v = -1 \<Longrightarrow>
   \<exists>v'. check_header env h v = Inr v' \<and> cont v' = n \<and> chunked v' = chunked v \<and>
        is_rpc v' = (if is_rpc v = 1 \<and> (n < 0x20000 \<or> n > 0x80000000) then -1 else is_rpc v) \<and>
        headers (req v') = (if n < 0 then headers (req v) else headers (req v) @ [h])"
  by (auto simp: check_header_def keep_def cl_value_def L_1_def Let_def
           split: if_splits prod.splits)

lemma filter_head_off_subset: "set (filter_head_off hs ms) \<subseteq> set hs"
proof (induction ms arbitrary: hs)
  case Nil
  then show ?case by simp
next
  case (Cons m ms)
  have "set (filter_head_off (http_header_list_filter hs m) ms) \<subseteq>
          set (http_header_list_filter hs m)"
    by (rule Cons.IH)
  also have "\<dots> \<subseteq> set hs"
    by (simp add: http_header_list_filter_eq)
  finally show ?case by simp
qed

text \<open>
  The header loop on a list with a single \<^verbatim>\<open>Content-Length\<close> header and no
  \<^verbatim>\<open>Transfer-Encoding\<close> header, when memory is available.
\<close>

lemma check_headers_single_CL:
  assumes b: "list_all benign xs" "list_all benign ys"
    and a: "\<forall>h. value_alloc env h"
    and h: "code h = HEADER_CONTENT_LENGTH" "cl_value h = Some n"
  shows "\<exists>v'. check_headers env (xs @ h # ys) (initial_vars r) = Inr v' \<and> cont v' = n \<and>
           chunked v' = 0 \<and>
           (is_rpc v' = 1 \<longleftrightarrow> method r = METH_RPC_IN_DATA \<and> 0x20000 \<le> n \<and> n \<le> 0x80000000) \<and>
           (n < 0 \<longrightarrow> set (headers (req v')) \<subseteq> set xs \<union> set ys)"
proof -
  let ?v0 = "initial_vars r"
  have v0: "cont ?v0 = -1" "chunked ?v0 = 0" "headers (req ?v0) = []"
    "is_rpc ?v0 = 1 \<longleftrightarrow> method r = METH_RPC_IN_DATA"
    by (auto simp: initial_vars_def L_1_def)
  from check_headers_benign [OF b(1) a, of ?v0] obtain v1 where
    1: "check_headers env xs ?v0 = Inr v1" "cont v1 = cont ?v0" "chunked v1 = chunked ?v0"
       "is_rpc v1 = is_rpc ?v0" "set (headers (req v1)) \<subseteq> set (headers (req ?v0)) \<union> set xs"
    by blast
  from a have ah: "value_alloc env h" by simp
  from 1 v0 have c1: "cont v1 = -1" by simp
  from check_header_CL_run [OF h(1) ah h(2) c1] obtain v2 where
    2: "check_header env h v1 = Inr v2" "cont v2 = n" "chunked v2 = chunked v1"
       "is_rpc v2 = (if is_rpc v1 = 1 \<and> (n < 0x20000 \<or> n > 0x80000000) then -1 else is_rpc v1)"
       "headers (req v2) = (if n < 0 then headers (req v1) else headers (req v1) @ [h])"
    by blast
  from check_headers_benign [OF b(2) a, of v2] obtain v3 where
    3: "check_headers env ys v2 = Inr v3" "cont v3 = cont v2" "chunked v3 = chunked v2"
       "is_rpc v3 = is_rpc v2" "set (headers (req v3)) \<subseteq> set (headers (req v2)) \<union> set ys"
    by blast
  have run: "check_headers env (xs @ h # ys) ?v0 = Inr v3"
    using 1(1) 2(1) 3(1) by (simp add: check_headers_append)
  have rpc: "is_rpc v3 = 1 \<longleftrightarrow> method r = METH_RPC_IN_DATA \<and> 0x20000 \<le> n \<and> n \<le> 0x80000000"
    using 1(4) 2(4) 3(4) v0(4) by auto
  have hs: "n < 0 \<longrightarrow> set (headers (req v3)) \<subseteq> set xs \<union> set ys"
    using 1(5) 2(5) 3(5) v0(3) by (auto split: if_splits)
  from run rpc hs 1 2 3 v0 show ?thesis by auto
qed

text \<open>
  The smuggling guard at work: a \<^verbatim>\<open>Transfer-Encoding\<close> header together with a
  \<^verbatim>\<open>Content-Length\<close> header whose value is not read as -1 ends in an error reply.
\<close>

lemma smuggling_guard:
  assumes "accept lstn rq = Some r"
    and "h1 \<in> set (headers rq)" "code h1 = HEADER_TRANSFER_ENCODING"
    and "h2 \<in> set (headers rq)" "code h2 = HEADER_CONTENT_LENGTH" "cl_value h2 \<noteq> Some (-1)"
  shows "\<exists>e. do_http_request env lstn rq = Reply e \<and> (e = 400 \<or> e = 500) \<and>
             ((\<forall>h. value_alloc env h) \<longrightarrow> e = 400)"
proof (cases "check_headers env (headers rq) (initial_vars r)")
  case (Inl e)
  with check_headers_Inl [OF Inl] show ?thesis
    by (simp add: do_http_request_accepted [OF assms(1)])
next
  case (Inr v)
  from check_headers_TE [OF Inr assms(2,3)] have c: "chunked v = 1" .
  from check_headers_CL [OF Inr assms(4,5)] assms(6) have "cont v \<noteq> -1"
    by auto
  with c Inr show ?thesis
    by (simp add: do_http_request_accepted [OF assms(1)])
qed

text \<open>
  C1.  The claim is that a request with both a \<^verbatim>\<open>Content-Length\<close> header and
  \<^verbatim>\<open>Transfer-Encoding: chunked\<close> is answered 400 and goes no further.  The guard tests
  \<^verbatim>\<open>cont != L_1\<close>, and -1 is also what \<^verbatim>\<open>Content-Length: -1\<close> parses to: the request
  below passes the guard and \<^verbatim>\<open>do_http\<close> goes on to select a service and a backend,
  with the \<^verbatim>\<open>Content-Length\<close> header removed and \<^verbatim>\<open>chunked\<close> set.
\<close>

theorem smuggling_guard_misses_minus_one:
  "do_http_request
     \<lparr>CONN_UPGRD = (\<lambda>s. False), get_user = (\<lambda>s. None), value_alloc = (\<lambda>h. True)\<rparr>
     \<lparr>verb = 0, has_pat = False, url_pat = (\<lambda>s. True), head_off = [], max_req = 0,
      max_uri_length = 0, log_level = 0\<rparr>
     \<lparr>request = Some ''POST /x HTTP/1.1'', method = METH_GET, url = None, version = 0,
      headers =
        [\<lparr>header = ''Host: h'', code = HEADER_HOST,
          name_start = 0, name_end = 4, val_start = 6, val_end = 7\<rparr>,
         \<lparr>header = ''Content-Length: -1'', code = HEADER_CONTENT_LENGTH,
          name_start = 0, name_end = 14, val_start = 16, val_end = 18\<rparr>,
         \<lparr>header = ''Transfer-Encoding: chunked'', code = HEADER_TRANSFER_ENCODING,
          name_start = 0, name_end = 17, val_start = 19, val_end = 26\<rparr>],
      user = None\<rparr>
   = Route
       \<lparr>chunked = 1, cont = -1, conn_closed = 0, is_ws = 0, is_rpc = -1, cl_11 = 1,
        no_cont = False,
        req =
          \<lparr>request = Some ''POST /x HTTP/1.1'', method = METH_POST, url = Some ''/x'',
           version = 1,
           headers =
             [\<lparr>header = ''Host: h'', code = HEADER_HOST,
               name_start = 0, name_end = 4, val_start = 6, val_end = 7\<rparr>,
              \<lparr>header = ''Transfer-Encoding: chunked'', code = HEADER_TRANSFER_ENCODING,
               name_start = 0, name_end = 17, val_start = 19, val_end = 26\<rparr>],
           user = None\<rparr>\<rparr>"
  by code_simp

text \<open>
  C2 (as amended).  For an accepted request, with memory available for the header
  values: a \<^verbatim>\<open>Content-Length\<close> header whose value holds a comma or is not read by
  \<^verbatim>\<open>strtol\<close> to its end and within range is answered 400; so is a second
  \<^verbatim>\<open>Content-Length\<close> header behind one whose value is not negative.  A negative
  \<^verbatim>\<open>Content-Length\<close> is not refused: when it is the only such header and there is no
  \<^verbatim>\<open>Transfer-Encoding\<close> header, the header is taken off the request and \<^verbatim>\<open>do_http\<close>
  goes on to select a service.
\<close>

theorem content_length_checks:
  assumes acc: "accept lstn rq = Some r" and mem: "\<forall>h. value_alloc env h"
  shows "((\<exists>h \<in> set (headers rq). code h = HEADER_CONTENT_LENGTH \<and> cl_value h = None) \<longrightarrow>
            do_http_request env lstn rq = Reply 400) \<and>
         ((\<exists>xs h1 ys h2 zs. headers rq = xs @ h1 # ys @ h2 # zs \<and>
              code h1 = HEADER_CONTENT_LENGTH \<and> \<not> (\<exists>n. cl_value h1 = Some n \<and> n < 0) \<and>
              code h2 = HEADER_CONTENT_LENGTH) \<longrightarrow>
            do_http_request env lstn rq = Reply 400) \<and>
         (\<forall>xs h ys n. headers rq = xs @ h # ys \<and> list_all benign xs \<and> list_all benign ys \<and>
              code h = HEADER_CONTENT_LENGTH \<and> cl_value h = Some n \<and> n < 0 \<longrightarrow>
            (\<exists>v. do_http_request env lstn rq = Route v \<and> cont v = n \<and>
                 h \<notin> set (headers (req v))))"
proof (intro conjI impI allI)
  assume "\<exists>h \<in> set (headers rq). code h = HEADER_CONTENT_LENGTH \<and> cl_value h = None"
  then obtain h where h: "h \<in> set (headers rq)" "code h = HEADER_CONTENT_LENGTH"
    "cl_value h = None" by blast
  show "do_http_request env lstn rq = Reply 400"
  proof (cases "check_headers env (headers rq) (initial_vars r)")
    case (Inl e)
    with check_headers_Inl [OF Inl] mem show ?thesis
      by (simp add: do_http_request_accepted [OF acc])
  next
    case (Inr v)
    from check_headers_CL [OF Inr h(1,2)] h(3) show ?thesis by simp
  qed
next
  assume "\<exists>xs h1 ys h2 zs. headers rq = xs @ h1 # ys @ h2 # zs \<and>
              code h1 = HEADER_CONTENT_LENGTH \<and> \<not> (\<exists>n. cl_value h1 = Some n \<and> n < 0) \<and>
              code h2 = HEADER_CONTENT_LENGTH"
  then obtain xs h1 ys h2 zs where sp: "headers rq = xs @ h1 # ys @ h2 # zs"
    and h1: "code h1 = HEADER_CONTENT_LENGTH" "\<not> (\<exists>n. cl_value h1 = Some n \<and> n < 0)"
    and h2: "code h2 = HEADER_CONTENT_LENGTH" by blast
  show "do_http_request env lstn rq = Reply 400"
  proof (cases "check_headers env (headers rq) (initial_vars r)")
    case (Inl e)
    with check_headers_Inl [OF Inl] mem show ?thesis
      by (simp add: do_http_request_accepted [OF acc])
  next
    case (Inr v)
    then have "check_headers env (xs @ ([h1] @ (ys @ h2 # zs))) (initial_vars r) = Inr v"
      by (simp add: sp)
    then obtain v1 v2 where 1: "check_headers env xs (initial_vars r) = Inr v1"
      and 2: "check_header env h1 v1 = Inr v2"
      and 3: "check_headers env (ys @ h2 # zs) v2 = Inr v"
      unfolding check_headers_append [of env xs] check_headers_append [of env "[h1]"]
      by (auto split: sum.splits)
    from check_header_CL [OF h1(1) 2] h1(2) have "cont v2 \<noteq> -1" by auto
    from check_headers_cont_fixed [OF this 3] h2 show ?thesis by simp
  qed
next
  fix xs h ys n
  assume a: "headers rq = xs @ h # ys \<and> list_all benign xs \<and> list_all benign ys \<and>
              code h = HEADER_CONTENT_LENGTH \<and> cl_value h = Some n \<and> n < 0"
  then have b: "list_all benign xs" "list_all benign ys"
    and h: "code h = HEADER_CONTENT_LENGTH" "cl_value h = Some n" and n: "n < 0" by auto
  from check_headers_single_CL [OF b mem h, of r] n obtain v' where
    run: "check_headers env (xs @ h # ys) (initial_vars r) = Inr v'" and c: "cont v' = n"
    and ch: "chunked v' = 0" and s: "set (headers (req v')) \<subseteq> set xs \<union> set ys"
    by blast
  let ?v = "v'\<lparr>req := (req v')\<lparr>headers := filter_head_off (headers (req v')) (head_off lstn)\<rparr>\<rparr>"
  from run c ch n a have out: "do_http_request env lstn rq = Route ?v"
    by (simp add: do_http_request_accepted [OF acc])
  from b h(1) have "h \<notin> set xs \<union> set ys"
    by (auto simp: list_all_iff benign_def)
  with s filter_head_off_subset [of "headers (req v')" "head_off lstn"]
  have "h \<notin> set (headers (req ?v))" by auto
  with out c show "\<exists>v. do_http_request env lstn rq = Route v \<and> cont v = n \<and>
                      h \<notin> set (headers (req v))"
    by (intro exI [of _ ?v]) simp
qed

subsection \<open>Example inputs\<close>

text \<open>
  An environment in which memory is available, no value matches \<^verbatim>\<open>CONN_UPGRD\<close> and
  no user name is decoded; a listener with \<^verbatim>\<open>xHTTP 3\<close>, which has no URL
  pattern and no headers to remove, and limits requests to 5 bytes and URIs to 8; a
  header \<^verbatim>\<open>Name: value\<close> with its spans; a request as \<^verbatim>\<open>http_request_read\<close> leaves it.
\<close>

definition env0 :: http_env where
  "env0 = \<lparr>CONN_UPGRD = (\<lambda>s. False), get_user = (\<lambda>s. None), value_alloc = (\<lambda>h. True)\<rparr>"

definition lstn0 :: listener where
  "lstn0 = \<lparr>verb = 3, has_pat = False, url_pat = (\<lambda>s. True), head_off = [], max_req = 5,
            max_uri_length = 8, log_level = 0\<rparr>"

definition mk_header :: "header_code \<Rightarrow> string \<Rightarrow> string \<Rightarrow> http_header" where
  "mk_header c nm val =
     \<lparr>header = nm @ '': '' @ val, code = c, name_start = 0, name_end = length nm,
      val_start = length nm + 2, val_end = length nm + 2 + length val\<rparr>"

definition mk_request :: "string \<Rightarrow> http_header list \<Rightarrow> http_request" where
  "mk_request line hs = http_request_init\<lparr>request := Some line, headers := hs\<rparr>"

text \<open>
  C2 as stated fails: a request whose \<^verbatim>\<open>Content-Length\<close> is -5 is not answered 400;
  the header is removed and the request goes on to service selection.
\<close>

theorem negative_content_length_counterexample:
  "do_http_request env0 lstn0
     (mk_request ''POST /x HTTP/1.1''
        [mk_header HEADER_HOST ''Host'' ''h'',
         mk_header HEADER_CONTENT_LENGTH ''Content-Length'' ''-5''])
   = Route
       \<lparr>chunked = 0, cont = -5, conn_closed = 0, is_ws = 0, is_rpc = -1, cl_11 = 1,
        no_cont = False,
        req = \<lparr>request = Some ''POST /x HTTP/1.1'', method = METH_POST, url = Some ''/x'',
               version = 1, headers = [mk_header HEADER_HOST ''Host'' ''h''], user = None\<rparr>\<rparr>"
  by code_simp

text \<open>
  The amended C2 at three requests: a malformed value, a repeated header, and a negative
  value.
\<close>

theorem content_length_checks_witness:
  "do_http_request env0 lstn0
     (mk_request ''POST /x HTTP/1.1''
        [mk_header HEADER_CONTENT_LENGTH ''Content-Length'' ''5x'']) = Reply 400 \<and>
   do_http_request env0 lstn0
     (mk_request ''POST /x HTTP/1.1''
        [mk_header HEADER_CONTENT_LENGTH ''Content-Length'' ''3'',
         mk_header HEADER_HOST ''Host'' ''h'',
         mk_header HEADER_CONTENT_LENGTH ''Content-Length'' ''3'']) = Reply 400 \<and>
   (\<exists>v. do_http_request env0 lstn0
          (mk_request ''POST /x HTTP/1.1''
             [mk_header HEADER_HOST ''Host'' ''h'',
              mk_header HEADER_CONTENT_LENGTH ''Content-Length'' ''-5'']) = Route v \<and>
        cont v = -5 \<and>
        mk_header HEADER_CONTENT_LENGTH ''Content-Length'' ''-5'' \<notin> set (headers (req v)))"
proof -
  let ?bad = "mk_header HEADER_CONTENT_LENGTH ''Content-Length'' ''5x''"
  let ?three = "mk_header HEADER_CONTENT_LENGTH ''Content-Length'' ''3''"
  let ?neg = "mk_header HEADER_CONTENT_LENGTH ''Content-Length'' ''-5''"
  let ?host = "mk_header HEADER_HOST ''Host'' ''h''"
  let ?r1 = "mk_request ''POST /x HTTP/1.1'' [?bad]"
  let ?r2 = "mk_request ''POST /x HTTP/1.1'' [?three, ?host, ?three]"
  let ?r3 = "mk_request ''POST /x HTTP/1.1'' [?host, ?neg]"
  have mem: "\<forall>h. value_alloc env0 h"
    by (simp add: env0_def)
  have a1: "accept lstn0 ?r1 = Some (?r1\<lparr>method := METH_POST, url := Some ''/x'', version := 1\<rparr>)"
    by code_simp
  have a2: "accept lstn0 ?r2 = Some (?r2\<lparr>method := METH_POST, url := Some ''/x'', version := 1\<rparr>)"
    by code_simp
  have a3: "accept lstn0 ?r3 = Some (?r3\<lparr>method := METH_POST, url := Some ''/x'', version := 1\<rparr>)"
    by code_simp
  have c1: "cl_value ?bad = None" by code_simp
  have c2: "cl_value ?three = Some 3" by code_simp
  have c3: "cl_value ?neg = Some (-5)" by code_simp
  have k: "code ?bad = HEADER_CONTENT_LENGTH" "code ?three = HEADER_CONTENT_LENGTH"
    "code ?neg = HEADER_CONTENT_LENGTH" "benign ?host"
    by (simp_all add: mk_header_def benign_def)
  have h1: "headers ?r1 = [?bad]" "headers ?r2 = [] @ ?three # [?host] @ ?three # []"
    "headers ?r3 = [?host] @ ?neg # []"
    by (simp_all add: mk_request_def)
  from content_length_checks [OF a1 mem] h1(1) k(1) c1
  have 1: "do_http_request env0 lstn0 ?r1 = Reply 400"
    by simp
  have ex2: "\<exists>xs h1 ys h2 zs. headers ?r2 = xs @ h1 # ys @ h2 # zs \<and>
              code h1 = HEADER_CONTENT_LENGTH \<and> \<not> (\<exists>n. cl_value h1 = Some n \<and> n < 0) \<and>
              code h2 = HEADER_CONTENT_LENGTH"
    using h1(2) k(2) c2
    by (intro exI [of _ "[]"] exI [of _ ?three] exI [of _ "[?host]"]) simp
  from content_length_checks [OF a2 mem, THEN conjunct2, THEN conjunct1] ex2
  have 2: "do_http_request env0 lstn0 ?r2 = Reply 400"
    by (rule mp)
  have pre3: "headers ?r3 = [?host] @ ?neg # [] \<and> list_all benign [?host] \<and>
              list_all benign [] \<and> code ?neg = HEADER_CONTENT_LENGTH \<and>
              cl_value ?neg = Some (-5) \<and> (-5 :: int) < 0"
    using h1(3) k(3,4) c3 by simp
  from content_length_checks [OF a3 mem, THEN conjunct2, THEN conjunct2, rule_format, OF pre3]
  have 3: "\<exists>v. do_http_request env0 lstn0 ?r3 = Route v \<and> cont v = -5 \<and>
                ?neg \<notin> set (headers (req v))" .
  from 1 2 3 show ?thesis
    by blast
qed







text \<open>
  \<^verbatim>\<open>do_http\<close> does not read the listener's \<^verbatim>\<open>max_uri_length\<close>: the outcome of
  validation is the same whatever that limit is, and it is never the reply 414.
\<close>

lemma max_uri_length_not_consulted:
  "do_http_request env (lstn\<lparr>max_uri_length := n\<rparr>) rq = do_http_request env lstn rq \<and>
   do_http_request env lstn rq \<noteq> Reply 414"
proof
  have same: "accept (lstn\<lparr>max_uri_length := n\<rparr>) rq = accept lstn rq"
    by (auto simp: accept_def split: option.split)
  show "do_http_request env (lstn\<lparr>max_uri_length := n\<rparr>) rq = do_http_request env lstn rq"
  proof (cases "accept lstn rq")
    case None
    with same show ?thesis by (simp add: do_http_request_rejected)
  next
    case (Some r)
    with same have "accept (lstn\<lparr>max_uri_length := n\<rparr>) rq = Some r" by simp
    from do_http_request_accepted [OF this, of env] do_http_request_accepted [OF Some, of env]
    show ?thesis by (simp split: sum.split)
  qed
  show "do_http_request env lstn rq \<noteq> Reply 414"
  proof (cases "accept lstn rq")
    case None
    then show ?thesis by (simp add: do_http_request_rejected)
  next
    case (Some r)
    show ?thesis
    proof (cases "check_headers env (headers rq) (initial_vars r)")
      case (Inl e)
      with check_headers_Inl [OF Inl] show ?thesis
        by (auto simp: do_http_request_accepted [OF Some])
    next
      case (Inr v)
      then show ?thesis
        by (simp add: do_http_request_accepted [OF Some])
    qed
  qed
qed

text \<open>
  C7.  The claim is that a request line longer than the listener's \<^verbatim>\<open>max_uri_length\<close>
  is answered 414.  The directive \<^verbatim>\<open>MaxURI\<close> stores the limit and the status table
  has the entry 414, but nothing compares a request with the limit: with the limit 8, a
  request line of 54 characters with a URL of 41 passes validation and goes on to
  service selection.
\<close>

theorem long_request_line_not_rejected:
  "max_uri_length lstn0 = 8 \<and>
   length ''GET /0123456789012345678901234567890123456789 HTTP/1.1'' = 54 \<and>
   do_http_request env0 lstn0
     (mk_request ''GET /0123456789012345678901234567890123456789 HTTP/1.1'' [])
   = Route
       \<lparr>chunked = 0, cont = -1, conn_closed = 0, is_ws = 1, is_rpc = -1, cl_11 = 1,
        no_cont = False,
        req = \<lparr>request = Some ''GET /0123456789012345678901234567890123456789 HTTP/1.1'',
               method = METH_GET, url = Some ''/0123456789012345678901234567890123456789'',
               version = 1, headers = [], user = None\<rparr>\<rparr>"
  by code_simp

subsection \<open>What \<^verbatim>\<open>get_line\<close> accepts\<close>

lemma replicate_update_head:
  "length pre < n \<Longrightarrow>
   (pre @ replicate (n - length pre) NUL)[length pre := c] =
   (pre @ [c]) @ replicate (n - length (pre @ [c])) NUL"
proof -
  assume a: "length pre < n"
  then obtain k where k: "n - length pre = Suc k" by (cases "n - length pre") auto
  then have "n - length (pre @ [c]) = k" by simp
  with k show ?thesis by (simp add: list_update_append)
qed

lemma replicate_update_same:
  "length pre < n \<Longrightarrow>
   (pre @ replicate (n - length pre) NUL)[length pre := NUL] = pre @ replicate (n - length pre) NUL"
proof -
  assume a: "length pre < n"
  then obtain k where k: "n - length pre = Suc k" by (cases "n - length pre") auto
  then show ?thesis by (simp add: list_update_append)
qed

lemma get_line_loop_success:
  "get_line_loop inp e (pre @ replicate (bufsize - length pre) NUL) bufsize (length pre) False
     = (0, buf', rest) \<Longrightarrow>
   \<exists>line. (inp = line @ [LF] @ rest \<or> inp = line @ [CR, LF] @ rest) \<and>
          buf' = (pre @ line) @ replicate (bufsize - length (pre @ line)) NUL \<and>
          (\<forall>c \<in> set line. \<not> iscntrl_c c \<or> c = TAB) \<and>
          length (pre @ line) + 1 < bufsize"
proof (induction inp arbitrary: pre)
  case Nil
  then show ?case by (auto split: if_splits bio_end.splits)
next
  case (Cons tmp inp)
  let ?buf = "pre @ replicate (bufsize - length pre) NUL"
  from Cons.prems have lt: "int (length pre) < int bufsize - 1"
    by (auto split: if_splits)
  then have lt': "length pre < bufsize" "length pre + 1 < bufsize" by auto
  show ?case
  proof (cases "\<not> iscntrl_c tmp \<or> tmp = TAB")
    case True
    with Cons.prems lt have
      "get_line_loop inp e (?buf[length pre := tmp]) bufsize (Suc (length pre)) False
         = (0, buf', rest)"
      by auto
    then have "get_line_loop inp e ((pre @ [tmp]) @ replicate (bufsize - length (pre @ [tmp])) NUL)
                 bufsize (length (pre @ [tmp])) False = (0, buf', rest)"
      using replicate_update_head [OF lt'(1), of tmp] by simp
    from Cons.IH [OF this] obtain line where
      l: "inp = line @ [LF] @ rest \<or> inp = line @ [CR, LF] @ rest"
         "buf' = ((pre @ [tmp]) @ line) @ replicate (bufsize - length ((pre @ [tmp]) @ line)) NUL"
         "\<forall>c \<in> set line. \<not> iscntrl_c c \<or> c = TAB"
         "length ((pre @ [tmp]) @ line) + 1 < bufsize"
      by blast
    with True show ?thesis
      by (intro exI [of _ "tmp # line"]) auto
  next
    case False
    note bad = False
    show ?thesis
    proof (cases "tmp = CR")
      case True
      with Cons.prems lt bad have
        1: "get_line_loop inp e ?buf bufsize (Suc (length pre)) True = (0, buf', rest)"
        by (auto simp: CR_def TAB_def)
      then obtain x xs where inp: "inp = x # xs"
        by (cases inp) (auto split: if_splits bio_end.splits)
      from 1 inp have x: "x = LF" "xs = rest" "buf' = ?buf[length pre := NUL]"
        and lt2: "int (Suc (length pre)) < int bufsize - 1"
        by (auto split: if_splits)
      from x(3) have "buf' = ?buf"
        using replicate_update_same [OF lt'(1)] by simp
      with inp x True lt2 show ?thesis
        by (intro exI [of _ "[]"]) auto
    next
      case False
      with Cons.prems lt bad have "tmp = LF" "inp = rest" "buf' = ?buf[length pre := NUL]"
        by (auto split: if_splits)
      moreover then have "buf' = ?buf"
        using replicate_update_same [OF lt'(1)] by simp
      ultimately show ?thesis using lt'
        by (intro exI [of _ "[]"]) auto
    qed
  qed
qed

text \<open>
  When \<^verbatim>\<open>get_line\<close> returns 0 it has consumed one line, ended by LF or CR LF, which
  holds no control character other than TAB and is shorter than the buffer by at least
  two; the buffer holds this line and is filled up with NUL.  So a line with another
  control character, with a CR that no LF follows, or too long for the buffer is never
  reported as a success.
\<close>

lemma get_line_success:
  assumes "get_line b n = (0, buf, b')"
  shows "\<exists>line. (pending b = line @ [LF] @ pending b' \<or> pending b = line @ [CR, LF] @ pending b') \<and>
           buf = line @ replicate (n - length line) NUL \<and> cstr buf = line \<and>
           (\<forall>c \<in> set line. \<not> iscntrl_c c \<or> c = TAB) \<and> length line + 1 < n"
proof -
  from assms have
    "get_line_loop (pending b) (at_end b) ([] @ replicate (n - length ([] :: string)) NUL) n
       (length ([] :: string)) False = (0, buf, pending b')"
    by (auto simp: get_line_def split: prod.splits)
  from get_line_loop_success [OF this] obtain line where
    l: "pending b = line @ [LF] @ pending b' \<or> pending b = line @ [CR, LF] @ pending b'"
       "buf = line @ replicate (n - length line) NUL"
       "\<forall>c \<in> set line. \<not> iscntrl_c c \<or> c = TAB" "length line + 1 < n"
    by auto
  from l(3) have "\<forall>c \<in> set line. c \<noteq> NUL"
    by (auto simp: iscntrl_c_def NUL_def TAB_def ord_def)
  then have "takeWhile (\<lambda>c. c \<noteq> NUL) (line @ replicate (n - length line) NUL) = line"
    by (cases "n - length line") simp_all
  with l show ?thesis
    by (auto simp: cstr_def)
qed

text \<open>
  C9.  The claim ends: a line that \<^verbatim>\<open>get_line\<close> refuses is never used as a request line
  or header.  The input below has a first line with the control character 0x01 in it,
  then \<^verbatim>\<open>Host: h\<close> and an empty line; the header pattern is one that splits a line at
  its first colon, and the line buffer has 32 bytes.  \<^verbatim>\<open>get_line\<close> refuses the first
  line with 1, but \<^verbatim>\<open>http_request_read\<close> only returns on a negative result: it takes
  the part of the line before the control character as the request line, reads the
  headers and returns 0.  The header loop, in contrast, gives up on any non-zero result.
  The request so read passes validation and goes on to service selection.
\<close>

theorem http_request_read_uses_refused_line:
  "get_line \<lparr>pending = ''GET / HTTP/1.1'' @ [CHR 0x01] @ ''x'' @ [CHR 0x0A] @
                           ''Host: h'' @ [CHR 0x0A, CHR 0x0A], at_end = BIO_EOF\<rparr> 32 =
     (1, ''GET / HTTP/1.1'' @ replicate 18 (CHR 0x00),
      \<lparr>pending = ''Host: h'' @ [CHR 0x0A, CHR 0x0A], at_end = BIO_EOF\<rparr>) \<and>
   http_request_read
     (\<lambda>s. if CHR '':'' \<in> set s
          then Some ((0, length (takeWhile (\<lambda>c. c \<noteq> CHR '':'') s)),
                     (length (takeWhile (\<lambda>c. c \<noteq> CHR '':'') s) + 2, length s))
          else None)
     True 32
     \<lparr>pending = ''GET / HTTP/1.1'' @ [CHR 0x01] @ ''x'' @ [CHR 0x0A] @
                  ''Host: h'' @ [CHR 0x0A, CHR 0x0A], at_end = BIO_EOF\<rparr> =
     (0, mk_request ''GET / HTTP/1.1'' [mk_header HEADER_HOST ''Host'' ''h''],
      \<lparr>pending = [], at_end = BIO_EOF\<rparr>) \<and>
   do_http_request env0 lstn0 (mk_request ''GET / HTTP/1.1'' [mk_header HEADER_HOST ''Host'' ''h''])
     = Route
         \<lparr>chunked = 0, cont = -1, conn_closed = 0, is_ws = 1, is_rpc = -1, cl_11 = 1,
          no_cont = False,
          req = \<lparr>request = Some ''GET / HTTP/1.1'', method = METH_GET, url = Some ''/'',
                 version = 1, headers = [mk_header HEADER_HOST ''Host'' ''h''], user = None\<rparr>\<rparr>"
  by code_simp

end
